theory Spec2Isabelle
  imports Complex_Main "HOL-Library.Word" "HOL-Library.Sublist"
begin

section \<open>JavaScript strings\<close>

text \<open>
  A JavaScript string is a sequence of UTF-16 code units: \<open>length\<close> counts code units,
  \<open>slice(0, n)\<close> keeps the first \<open>n\<close> of them (\<open>take n\<close>) and \<open>charCodeAt\<close> reads one as a
  number below 65536.  ASCII literals of the source are written \<open>JS ''...''\<close>; literals
  outside ASCII are written as lists of code units.
\<close>

type_synonym jschar = "16 word"
type_synonym jstring = "jschar list"

definition JS :: "string \<Rightarrow> jstring" where
  "JS s = map of_char s"

text \<open>
  The class \<open>\s\<close> of a JavaScript regular expression, which is also the set of characters
  that \<open>trim()\<close> removes: tab, line feed, vertical tab, form feed, carriage return, space,
  no-break space, U+1680, U+2000 to U+200A, U+2028, U+2029, U+202F, U+205F, U+3000, U+FEFF.
\<close>

definition isSpace :: "jschar \<Rightarrow> bool" where
  "isSpace c \<longleftrightarrow>
     c \<in> set [0x09, 0x0A, 0x0B, 0x0C, 0x0D, 0x20, 0xA0, 0x1680,
               0x2000, 0x2001, 0x2002, 0x2003, 0x2004, 0x2005, 0x2006, 0x2007,
               0x2008, 0x2009, 0x200A, 0x2028, 0x2029, 0x202F, 0x205F, 0x3000, 0xFEFF]"

text \<open>\<open>text.replace(/\s+/g, ' ')\<close>: every maximal run of white space becomes one space.\<close>

fun collapseWs :: "jstring \<Rightarrow> jstring" where
  "collapseWs [] = []"
| "collapseWs [c] = (if isSpace c then [0x20] else [c])"
| "collapseWs (c # d # cs) =
     (if isSpace c \<and> isSpace d then collapseWs (d # cs)
      else (if isSpace c then 0x20 else c) # collapseWs (d # cs))"

definition trim :: "jstring \<Rightarrow> jstring" where
  "trim s = rev (dropWhile isSpace (rev (dropWhile isSpace s)))"

definition normalizeWhitespace :: "jstring \<Rightarrow> jstring" where
  "normalizeWhitespace text = trim (collapseWs text)"

text \<open>\<open>Number.prototype.toString(radix)\<close> on a non-negative integer, lower-case digits.\<close>

definition digitChar :: "nat \<Rightarrow> jschar" where
  "digitChar d = (if d < 10 then of_nat (48 + d) else of_nat (87 + d))"

function toStringRadix :: "nat \<Rightarrow> nat \<Rightarrow> jstring" where
  "toStringRadix b n =
     (if b < 2 \<or> n < b then [digitChar n]
      else toStringRadix b (n div b) @ [digitChar (n mod b)])"
  by pat_completeness auto
termination
  by (relation "measure (\<lambda>(b, n). n)") auto

declare toStringRadix.simps [simp del]

text \<open>String conversion of an integer inside a template literal (decimal, sign first).\<close>

definition numToString :: "int \<Rightarrow> jstring" where
  "numToString i =
     (if i < 0 then JS ''-'' @ toStringRadix 10 (nat (- i)) else toStringRadix 10 (nat i))"

text \<open>\<open>xs.join(sep)\<close>.\<close>

fun joinWith :: "jstring \<Rightarrow> jstring list \<Rightarrow> jstring" where
  "joinWith sep [] = []"
| "joinWith sep [x] = x"
| "joinWith sep (x # y # ys) = x @ sep @ joinWith sep (y # ys)"

text \<open>\<open>s.startsWith(p)\<close>.\<close>

definition startsWith :: "jstring \<Rightarrow> jstring \<Rightarrow> bool" where
  "startsWith s p \<longleftrightarrow> take (length p) s = p"

text \<open>A string is truthy when it is neither null nor empty.\<close>

fun truthy :: "jstring option \<Rightarrow> bool" where
  "truthy None = False"
| "truthy (Some s) = (s \<noteq> [])"

text \<open>\<open>a || b\<close> on strings.\<close>

definition orElse :: "jstring \<Rightarrow> jstring \<Rightarrow> jstring" where
  "orElse a b = (if a \<noteq> [] then a else b)"

section \<open>The rendered document\<close>

text \<open>
  An element of the rendered document: \<open>elemId\<close> stands for the identity of the object
  (\<open>===\<close> on elements compares references), \<open>tagName\<close> is its tag in lower case and
  \<open>textContent\<close> its text.
\<close>

record element =
  elemId :: nat
  tagName :: string
  textContent :: jstring

text \<open>
  A node together with its chain of parents.  Only element nodes (\<open>nodeType === 1\<close>) are
  inspected by the block locator.
\<close>

datatype node = ElementNode element "node option" | NonElementNode "node option"

definition PARAGRAPH_SELECTOR :: "string list" where
  "PARAGRAPH_SELECTOR =
     [''p'', ''li'', ''blockquote'', ''article'', ''section'', ''div'',
      ''h1'', ''h2'', ''h3'', ''h4'', ''h5'', ''h6'']"

definition matchesSelector :: "element \<Rightarrow> bool" where
  "matchesSelector el \<longleftrightarrow> tagName el \<in> set PARAGRAPH_SELECTOR"

fun getNearestBlockElement :: "node option \<Rightarrow> element option" where
  "getNearestBlockElement None = None"
| "getNearestBlockElement (Some (ElementNode el parent)) =
     (if matchesSelector el then Some el else getNearestBlockElement parent)"
| "getNearestBlockElement (Some (NonElementNode parent)) = getNearestBlockElement parent"

text \<open>
  The body of the document: its own text and the result of
  \<open>body.querySelectorAll(PARAGRAPH_SELECTOR)\<close> in document order.
\<close>

record body =
  bodyText :: jstring
  blocks :: "element list"

definition collectParagraphElements :: "body \<Rightarrow> element list" where
  "collectParagraphElements b =
     filter (\<lambda>el. length (normalizeWhitespace (textContent el)) \<ge> 20) (blocks b)"

section \<open>Character budget\<close>

text \<open>
  \<open>Math.floor(131072 * 3 * 0.7)\<close>.  The product is computed in double precision; its
  exact value 275251.2 is far from an integer, so the floor of the double is the floor of
  the rational.
\<close>

definition CONTEXT_TOKENS_LIMIT :: nat where
  "CONTEXT_TOKENS_LIMIT = 131072"

definition TOKEN_TO_CHAR_APPROX :: nat where
  "TOKEN_TO_CHAR_APPROX = 3"

definition CONTEXT_SAFETY_RATIO :: rat where
  "CONTEXT_SAFETY_RATIO = 7 / 10"

definition charBudgetCap :: nat where
  "charBudgetCap =
     nat \<lfloor>of_nat CONTEXT_TOKENS_LIMIT * of_nat TOKEN_TO_CHAR_APPROX * CONTEXT_SAFETY_RATIO\<rfloor>"

definition fallbackMaxChars :: nat where
  "fallbackMaxChars = min charBudgetCap 20000"

definition charBudget :: nat where
  "charBudget = min charBudgetCap 40000"

definition maxParas :: nat where
  "maxParas = 300"

section \<open>Window selection\<close>

text \<open>
  The three variables that \<open>pushIdx\<close> updates: the running total, the selected texts and
  the selected indices.
\<close>

record sel_state =
  total :: nat
  texts :: "jstring list"
  selectedIdxs :: "int list"

definition sel_init :: sel_state where
  "sel_init = \<lparr>total = 0, texts = [], selectedIdxs = []\<rparr>"

text \<open>\<open>pushIdx\<close> returns whether it selected the paragraph, and the updated variables.\<close>

definition pushIdx :: "element list \<Rightarrow> int \<Rightarrow> sel_state \<Rightarrow> bool \<times> sel_state" where
  "pushIdx inBetween idx s =
     (if idx < 0 \<or> idx \<ge> int (length inBetween) then (False, s)
      else if idx \<in> set (selectedIdxs s) then (False, s)
      else
        let t = normalizeWhitespace (textContent (inBetween ! nat idx)) in
        if t = [] then (False, s)
        else
          let next = total s + length t + (if texts s \<noteq> [] then 2 else 0) in
          if length (texts s) \<ge> maxParas then (False, s)
          else if length (texts s) \<ge> 2 \<and> next > charBudget then (False, s)
          else (True, \<lparr>total = next, texts = texts s @ [t],
                       selectedIdxs = selectedIdxs s @ [idx]\<rparr>))"

text \<open>The two forced boundary paragraphs (the same paragraph is pushed once).\<close>

definition pushBoundaries :: "element list \<Rightarrow> sel_state" where
  "pushBoundaries inBetween =
     (let s0 = snd (pushIdx inBetween 0 sel_init) in
      if length inBetween > 1 then snd (pushIdx inBetween (int (length inBetween) - 1) s0)
      else s0)"

text \<open>The loop that fills in from both ends towards the middle.\<close>

function expandLoop :: "element list \<Rightarrow> nat \<Rightarrow> sel_state \<Rightarrow> sel_state" where
  "expandLoop inBetween step s =
     (if length (texts s) < maxParas \<and> total s < charBudget \<and> step < length inBetween then
        let leftIdx = int step;
            rightIdx = int (length inBetween) - 1 - int step;
            s' = (if leftIdx \<le> rightIdx then
                    let s1 = snd (pushIdx inBetween leftIdx s) in
                    if rightIdx \<noteq> leftIdx then snd (pushIdx inBetween rightIdx s1) else s1
                  else s)
        in if leftIdx > rightIdx then s' else expandLoop inBetween (step + 1) s'
      else s)"
  by pat_completeness auto
termination
  by (relation "measure (\<lambda>(inBetween, step, s). length inBetween - step)") auto

declare expandLoop.simps [simp del]

definition selectWindow :: "element list \<Rightarrow> sel_state" where
  "selectWindow inBetween = expandLoop inBetween 1 (pushBoundaries inBetween)"

section \<open>The rendering engine\<close>

text \<open>
  A call into the rendering engine either throws or returns.  \<open>getRange\<close> and
  \<open>currentLocation\<close> may be absent (the source tests \<open>typeof ... === 'function'\<close>).
\<close>

datatype 'a outcome = Threw | Returned 'a

record dom_range =
  startContainer :: "node option"
  endContainer :: "node option"

text \<open>\<open>loc.start.cfi\<close>, \<open>loc.end.cfi\<close> and \<open>loc.start.index\<close>, each possibly missing.\<close>

record location =
  startCfi :: "jstring option"
  endCfi :: "jstring option"
  startIndex :: "int option"

text \<open>
  The document of the first content: its body, and the answer of
  \<open>betweenRange.intersectsNode(el)\<close> for the range set before \<open>startBlock\<close> and after
  \<open>endBlock\<close> (a call that throws is caught by the source and selects nothing, as the
  answer \<open>False\<close> does).
\<close>

record document =
  docBody :: "body option"
  intersectsNode :: "element \<Rightarrow> element \<Rightarrow> element \<Rightarrow> bool"

record rendition =
  getContents :: "document option list option outcome"
  currentLocation :: "location option outcome option"
  getRange :: "(jstring \<Rightarrow> dom_range option outcome) option"

record book =
  bookId :: jstring
  bookTitle :: jstring
  bookAuthor :: jstring

record ExtractResult =
  content :: jstring
  cacheKey :: "jstring option"
  groupPrefix :: "jstring option"
  sigSource :: "jstring option"

text \<open>
  \<open>getNearestBlockElement\<close> of the container that \<open>pick\<close> reads from the range at
  \<open>cfi\<close>; nothing is looked up when the reference is missing or empty, or when \<open>getRange\<close>
  is not a function.
\<close>

definition resolveBlock ::
  "rendition \<Rightarrow> jstring option \<Rightarrow> (dom_range \<Rightarrow> node option) \<Rightarrow> element option outcome" where
  "resolveBlock r cfi pick =
     (case cfi of
        None \<Rightarrow> Returned None
      | Some c \<Rightarrow>
          if c = [] then Returned None
          else (case getRange r of
                  None \<Rightarrow> Returned None
                | Some g \<Rightarrow>
                    (case g c of
                       Threw \<Rightarrow> Threw
                     | Returned None \<Rightarrow> Returned (getNearestBlockElement None)
                     | Returned (Some rg) \<Rightarrow> Returned (getNearestBlockElement (pick rg)))))"

definition endPick :: "dom_range \<Rightarrow> node option" where
  "endPick rg = (case endContainer rg of Some n \<Rightarrow> Some n | None \<Rightarrow> startContainer rg)"

text \<open>
  The inner \<open>try\<close> block: the spine id and the two boundary blocks.  An exception leaves
  the variables not yet assigned at \<open>null\<close>.
\<close>

definition locateBlocks :: "rendition \<Rightarrow> jstring option \<times> element option \<times> element option" where
  "locateBlocks r =
     (case (case currentLocation r of None \<Rightarrow> Returned None | Some call \<Rightarrow> call) of
        Threw \<Rightarrow> (None, None, None)
      | Returned loc \<Rightarrow>
          let sCfi = (case loc of None \<Rightarrow> None | Some l \<Rightarrow> startCfi l);
              eCfi = (case loc of None \<Rightarrow> None | Some l \<Rightarrow> endCfi l);
              spineId = (case loc of None \<Rightarrow> None | Some l \<Rightarrow> map_option numToString (startIndex l))
          in (case resolveBlock r sCfi startContainer of
                Threw \<Rightarrow> (spineId, None, None)
              | Returned sb \<Rightarrow>
                  (case resolveBlock r eCfi endPick of
                     Threw \<Rightarrow> (spineId, sb, None)
                   | Returned eb \<Rightarrow> (spineId, sb, eb))))"

text \<open>\<open>xs.findIndex((el) => el === b)\<close>: the first position of the object, or -1.\<close>

fun findIndexFrom :: "int \<Rightarrow> element list \<Rightarrow> element \<Rightarrow> int" where
  "findIndexFrom i [] b = -1"
| "findIndexFrom i (x # xs) b = (if elemId x = elemId b then i else findIndexFrom (i + 1) xs b)"

definition findIndex :: "element list \<Rightarrow> element \<Rightarrow> int" where
  "findIndex xs b = findIndexFrom 0 xs b"

text \<open>\<open>normalizeWhitespace(xs[i]?.textContent || '')\<close>.\<close>

definition textAt :: "element list \<Rightarrow> nat \<Rightarrow> jstring" where
  "textAt xs i = (if i < length xs then normalizeWhitespace (textContent (xs ! i)) else [])"

text \<open>
  \<open>stableHash\<close>: \<open>h\<close> is a JavaScript number.  It stays below \<open>2^32\<close>, so \<open>h * 131 + c\<close> is
  below \<open>2^53\<close> and exact, and \<open>>>> 0\<close> reduces it modulo \<open>2^32\<close>.
\<close>

definition hashStep :: "nat \<Rightarrow> jschar \<Rightarrow> nat" where
  "hashStep h c = (h * 131 + unat c) mod 2 ^ 32"

definition stableHash :: "jstring \<Rightarrow> jstring" where
  "stableHash str = toStringRadix 16 (foldl hashStep 0 str)"

text \<open>The in-between set: the collected paragraphs that the range meets, else the start block.\<close>

definition inBetweenOf :: "document \<Rightarrow> element list \<Rightarrow> element \<Rightarrow> element \<Rightarrow> element list" where
  "inBetweenOf doc paragraphs startBlock endBlock =
     (let hit = filter (intersectsNode doc startBlock endBlock) paragraphs
      in if hit = [] then [startBlock] else hit)"

definition noContentMsg :: jstring where
  "noContentMsg = [0x65E0, 0x6CD5, 0x63D0, 0x53D6, 0x6709, 0x6548, 0x5185, 0x5BB9]"

definition nullResult :: "jstring \<Rightarrow> ExtractResult" where
  "nullResult c = \<lparr>content = c, cacheKey = None, groupPrefix = None, sigSource = None\<rparr>"

text \<open>The joined text of the selected window.\<close>

definition windowContext :: "element list \<Rightarrow> jstring" where
  "windowContext inBetween = joinWith (JS [CHR 0x0A, CHR 0x0A]) (texts (selectWindow inBetween))"

text \<open>The signature source: the first 120 characters of the first and of the last paragraph.\<close>

definition paraHashSource :: "element list \<Rightarrow> jstring" where
  "paraHashSource inBetween =
     take 120 (textAt inBetween 0) @ JS ''|'' @ take 120 (textAt inBetween (length inBetween - 1))"

definition bookIdPart :: "book option \<Rightarrow> jstring" where
  "bookIdPart bk = orElse (case bk of None \<Rightarrow> [] | Some k \<Rightarrow> bookId k) (JS ''unknown'')"

definition spinePart :: "jstring option \<Rightarrow> jstring" where
  "spinePart spineId = orElse (case spineId of None \<Rightarrow> [] | Some sp \<Rightarrow> sp) (JS ''0'')"

definition centerPart :: "element list \<Rightarrow> element \<Rightarrow> element \<Rightarrow> jstring" where
  "centerPart paragraphs startBlock endBlock =
     (let startIdx = findIndex paragraphs startBlock;
          endIdx = findIndex paragraphs endBlock
      in numToString (min startIdx endIdx) @ JS ''-'' @ numToString (max startIdx endIdx))"

definition groupPrefixOf :: "book option \<Rightarrow> jstring option \<Rightarrow> jstring" where
  "groupPrefixOf bk spineId = JS ''ai-summary:'' @ bookIdPart bk @ JS '':'' @ spinePart spineId @ JS '':''"

text \<open>The window, the signature and the key, once both boundary blocks are known.\<close>

definition extractWindow ::
  "book option \<Rightarrow> document \<Rightarrow> body \<Rightarrow> jstring option \<Rightarrow> element list \<Rightarrow> element \<Rightarrow> element
     \<Rightarrow> ExtractResult" where
  "extractWindow bk doc b spineId paragraphs startBlock endBlock =
     (let inBetween = inBetweenOf doc paragraphs startBlock endBlock;
          context = windowContext inBetween;
          contentSig = stableHash (paraHashSource inBetween);
          key = JS ''ai-summary:'' @ bookIdPart bk @ JS '':'' @ spinePart spineId @ JS '':''
                  @ centerPart paragraphs startBlock endBlock @ JS '':'' @ contentSig
      in if context \<noteq> [] \<and> length context \<ge> 50 then
           \<lparr>content = context, cacheKey = Some key, groupPrefix = Some (groupPrefixOf bk spineId),
            sigSource = Some (paraHashSource inBetween)\<rparr>
         else
           \<lparr>content = orElse (take fallbackMaxChars (normalizeWhitespace (bodyText b))) noContentMsg,
            cacheKey = None, groupPrefix = Some (groupPrefixOf bk spineId),
            sigSource = Some (paraHashSource inBetween)\<rparr>)"

text \<open>
  The fallback for boundary blocks that were not located: the middle paragraph stands for
  both when both are missing, and one stands for the other when one is missing.
\<close>

definition boundaryBlocks ::
  "element list \<Rightarrow> element option \<Rightarrow> element option \<Rightarrow> element option \<times> element option" where
  "boundaryBlocks paragraphs sb0 eb0 =
     (let mid = paragraphs ! (length paragraphs div 2);
          sb1 = (if sb0 = None \<and> eb0 = None then Some mid else sb0);
          eb1 = (if sb0 = None \<and> eb0 = None then Some mid else eb0);
          sb2 = (if sb1 = None \<and> eb1 \<noteq> None then eb1 else sb1);
          eb2 = (if eb1 = None \<and> sb2 \<noteq> None then sb2 else eb1)
      in (sb2, eb2))"

text \<open>The body of the outer \<open>try\<close>, after the document and its body have been found.\<close>

definition extractFromBody :: "book option \<Rightarrow> rendition \<Rightarrow> document \<Rightarrow> body \<Rightarrow> ExtractResult" where
  "extractFromBody bk r doc b =
     (case locateBlocks r of (spineId, sb0, eb0) \<Rightarrow>
        let paragraphs = collectParagraphElements b;
            fallback = nullResult (orElse (take 2000 (normalizeWhitespace (bodyText b))) noContentMsg)
        in if paragraphs = [] then fallback
           else (case boundaryBlocks paragraphs sb0 eb0 of
                   (Some startBlock, Some endBlock) \<Rightarrow>
                     extractWindow bk doc b spineId paragraphs startBlock endBlock
                 | _ \<Rightarrow> fallback))"

text \<open>The panel's state variables.\<close>

record config_status =
  configured :: bool
  missing :: "jstring list"

record panel =
  aiConfigStatus :: config_status
  isExtractingContent :: bool
  isLoading :: bool
  completion :: jstring
  pageContent :: jstring
  pagePromptDraft :: jstring
  pagePromptSaved :: jstring

text \<open>
  \<open>extractPageContent\<close>.  Without a rendition it returns before touching the state;
  otherwise the flag is raised, and lowered again by \<open>finally\<close> on every path.
\<close>

definition extractPageContent ::
  "book option \<Rightarrow> rendition option \<Rightarrow> panel \<Rightarrow> ExtractResult \<times> panel" where
  "extractPageContent bk rend p =
     (case rend of
        None \<Rightarrow> (nullResult [], p)
      | Some r \<Rightarrow>
          (let res =
             (case getContents r of
                Threw \<Rightarrow>
                  nullResult [0x63D0, 0x53D6, 0x9875, 0x9762, 0x5185, 0x5BB9, 0x65F6, 0x51FA,
                               0x73B0, 0x9519, 0x8BEF]
              | Returned None \<Rightarrow>
                  nullResult [0x65E0, 0x6CD5, 0x63D0, 0x53D6, 0x9875, 0x9762, 0x5185, 0x5BB9]
              | Returned (Some []) \<Rightarrow>
                  nullResult [0x65E0, 0x6CD5, 0x63D0, 0x53D6, 0x9875, 0x9762, 0x5185, 0x5BB9]
              | Returned (Some (first # _)) \<Rightarrow>
                  (case first of
                     None \<Rightarrow> nullResult [0x65E0, 0x6CD5, 0x83B7, 0x53D6, 0x9875, 0x9762, 0x6587, 0x6863]
                   | Some doc \<Rightarrow>
                       (case docBody doc of
                          None \<Rightarrow>
                            nullResult [0x65E0, 0x6CD5, 0x83B7, 0x53D6, 0x9875, 0x9762, 0x6587, 0x6863]
                        | Some b \<Rightarrow> extractFromBody bk r doc b)))
           in (res, p\<lparr>isExtractingContent := False\<rparr>)))"

section \<open>Configuration\<close>

text \<open>
  \<open>localStorage.getItem(key)\<close>: it throws, returns \<open>null\<close>, or returns the stored string.
  \<open>Storage.getItem\<close> of the source falls back to the default in the first two cases.
\<close>

type_synonym local_storage = "jstring \<Rightarrow> jstring option outcome"

definition storage_getItem :: "local_storage \<Rightarrow> jstring \<Rightarrow> jstring \<Rightarrow> jstring" where
  "storage_getItem ls key defaultValue =
     (case ls key of Threw \<Rightarrow> defaultValue | Returned None \<Rightarrow> defaultValue | Returned (Some v) \<Rightarrow> v)"

record AIConfig =
  apiKey :: jstring
  baseUrl :: jstring
  model :: jstring
  userPrompt :: jstring

definition aiStorage_getAll :: "local_storage \<Rightarrow> AIConfig" where
  "aiStorage_getAll ls =
     \<lparr>apiKey = storage_getItem ls (JS ''ai:apiKey'') [],
      baseUrl = storage_getItem ls (JS ''ai:baseUrl'') (JS ''https://api-inference.modelscope.cn/v1''),
      model = storage_getItem ls (JS ''ai:model'') (JS ''Qwen/Qwen3-235B-A22B-Instruct-2507''),
      userPrompt = storage_getItem ls (JS ''ai:userPrompt'') []\<rparr>"

text \<open>\<open>checkAiConfig\<close>: the labels of the blank items, in the order of the source.\<close>

definition missingItems :: "AIConfig \<Rightarrow> jstring list" where
  "missingItems config =
     (if trim (apiKey config) = [] then [JS ''API Key''] else []) @
     (if trim (baseUrl config) = [] then [JS ''Base URL''] else []) @
     (if trim (model config) = [] then [JS ''Model''] else [])"

definition checkAiConfig :: "local_storage \<Rightarrow> panel \<Rightarrow> panel" where
  "checkAiConfig ls p =
     (let m = missingItems (aiStorage_getAll ls)
      in p\<lparr>aiConfigStatus := \<lparr>configured = (length m = 0), missing = m\<rparr>\<rparr>)"

text \<open>
  What the panel renders about the configuration: the card is shown exactly when the
  status is not configured, and lists \<open>missing.join(', ')\<close>.
\<close>

definition configCardShown :: "panel \<Rightarrow> bool" where
  "configCardShown p \<longleftrightarrow> \<not> configured (aiConfigStatus p)"

definition configCardItems :: "panel \<Rightarrow> jstring" where
  "configCardItems p = joinWith (JS '', '') (missing (aiConfigStatus p))"

section \<open>The world outside the panel\<close>

text \<open>
  The persistent store (localforage) as an association list in the order in which
  \<open>keys()\<close> lists it, with a log of the operations issued against it; the requests sent
  to the completion endpoint; the lines reported by \<open>console.warn\<close> during streaming;
  whether an abort controller is installed.
\<close>

datatype store_op = OpKeys | OpGet jstring | OpSet jstring jstring | OpRemove jstring

datatype message =
    SystemMsg
  | PagePromptMsg jstring
  | UserPromptMsg jstring
  | RulesMsg
  | BodyMsg jstring

record request =
  reqUrl :: jstring
  reqAuthorization :: jstring
  reqModel :: jstring
  reqMessages :: "message list"

record world =
  ui :: panel
  localStore :: local_storage
  store :: "(jstring \<times> jstring) list"
  storeOps :: "store_op list"
  requests :: "request list"
  warnings :: "jstring list"
  abortController :: bool

definition setCompletion :: "jstring \<Rightarrow> world \<Rightarrow> world" where
  "setCompletion v w = w\<lparr>ui := (ui w)\<lparr>completion := v\<rparr>\<rparr>"

definition setIsLoading :: "bool \<Rightarrow> world \<Rightarrow> world" where
  "setIsLoading v w = w\<lparr>ui := (ui w)\<lparr>isLoading := v\<rparr>\<rparr>"

definition store_getItem :: "jstring \<Rightarrow> world \<Rightarrow> jstring option \<times> world" where
  "store_getItem k w = (map_of (store w) k, w\<lparr>storeOps := storeOps w @ [OpGet k]\<rparr>)"

definition store_keys :: "world \<Rightarrow> jstring list \<times> world" where
  "store_keys w = (map fst (store w), w\<lparr>storeOps := storeOps w @ [OpKeys]\<rparr>)"

fun alist_set :: "jstring \<Rightarrow> jstring \<Rightarrow> (jstring \<times> jstring) list \<Rightarrow> (jstring \<times> jstring) list" where
  "alist_set k v [] = [(k, v)]"
| "alist_set k v (e # es) = (if fst e = k then (k, v) # es else e # alist_set k v es)"

definition store_setItem :: "jstring \<Rightarrow> jstring \<Rightarrow> world \<Rightarrow> world" where
  "store_setItem k v w =
     w\<lparr>store := alist_set k v (store w), storeOps := storeOps w @ [OpSet k v]\<rparr>"

definition store_removeItem :: "jstring \<Rightarrow> world \<Rightarrow> world" where
  "store_removeItem k w =
     w\<lparr>store := filter (\<lambda>e. fst e \<noteq> k) (store w), storeOps := storeOps w @ [OpRemove k]\<rparr>"

text \<open>
  The closures of one render see the props and the state variables as they were at that
  render; the setters act on the live state in the world.
\<close>

record render =
  rBook :: "book option"
  rRendition :: "rendition option"
  rState :: panel

section \<open>Summary streaming\<close>

text \<open>\<open>chunk.split('\n')\<close>.\<close>

fun splitAcc :: "jstring \<Rightarrow> jstring \<Rightarrow> jstring list" where
  "splitAcc cur [] = [cur]"
| "splitAcc cur (c # cs) = (if c = 0x0A then cur # splitAcc [] cs else splitAcc (cur @ [c]) cs)"

definition splitLines :: "jstring \<Rightarrow> jstring list" where
  "splitLines chunk = splitAcc [] chunk"

text \<open>
  The platform's part of reading one payload, \<open>JSON.parse(payload)\<close> followed by
  \<open>jsonData.choices?.[0]?.delta?.content\<close>: \<open>Threw\<close> when either throws, \<open>Returned None\<close>
  when the delta is falsy, \<open>Returned (Some d)\<close> when it is truthy, \<open>d\<close> being the text that
  \<open>+=\<close> appends.
\<close>

type_synonym delta_reader = "jstring \<Rightarrow> jstring option outcome"

text \<open>One line of a chunk: the accumulated content and the world after it.\<close>

definition processLine :: "delta_reader \<Rightarrow> jstring \<times> world \<Rightarrow> jstring \<Rightarrow> jstring \<times> world" where
  "processLine rd aw line =
     (case aw of (acc, w) \<Rightarrow>
        let trimmed = trim line in
        if trimmed = [] \<or> trimmed = JS ''data: [DONE]'' then (acc, w)
        else if startsWith trimmed (JS ''data: '') then
          (case rd (drop 6 trimmed) of
             Threw \<Rightarrow> (acc, w\<lparr>warnings := warnings w @ [trimmed]\<rparr>)
           | Returned None \<Rightarrow> (acc, w)
           | Returned (Some delta) \<Rightarrow> (acc @ delta, setCompletion (acc @ delta) w))
        else (acc, w))"

definition processChunk :: "delta_reader \<Rightarrow> jstring \<times> world \<Rightarrow> jstring \<Rightarrow> jstring \<times> world" where
  "processChunk rd aw chunk = foldl (processLine rd) aw (splitLines chunk)"

definition consumeStream :: "delta_reader \<Rightarrow> jstring list \<Rightarrow> world \<Rightarrow> jstring \<times> world" where
  "consumeStream rd chunks w = foldl (processChunk rd) ([], w) chunks"

text \<open>
  What the network does with one request: \<open>fetch\<close> rejects (failure or abort), answers
  with a status outside 2xx, answers without a readable body, or delivers decoded chunks
  until the stream is done, fails, or is aborted.
\<close>

datatype stream_end = StreamDone | StreamFailed | StreamAborted

datatype response =
    FetchFailed
  | FetchAborted
  | HttpError
  | NoBody
  | Streaming "jstring list" stream_end

definition retryMsg :: jstring where
  "retryMsg = [0x751F, 0x6210, 0x603B, 0x7ED3, 0x65F6, 0x51FA, 0x73B0, 0x9519, 0x8BEF,
               0xFF0C, 0x8BF7, 0x91CD, 0x8BD5, 0x3002]"

definition stopGeneration :: "world \<Rightarrow> world" where
  "stopGeneration w = setIsLoading False (w\<lparr>abortController := False\<rparr>)"

text \<open>\<open>baseUrl.replace(/\/$/, '')\<close>: one trailing slash is removed.\<close>

definition stripSlash :: "jstring \<Rightarrow> jstring" where
  "stripSlash u = (if u \<noteq> [] \<and> last u = 0x2F then butlast u else u)"

definition buildRequest :: "AIConfig \<Rightarrow> jstring \<Rightarrow> jstring \<Rightarrow> jstring \<Rightarrow> request" where
  "buildRequest config pagePromptText userPromptText body_text =
     \<lparr>reqUrl = stripSlash (baseUrl config) @ JS ''/chat/completions'',
      reqAuthorization = JS ''Bearer '' @ apiKey config,
      reqModel = model config,
      reqMessages =
        [SystemMsg] @
        (if pagePromptText \<noteq> [] then [PagePromptMsg pagePromptText] else []) @
        (if userPromptText \<noteq> [] then [UserPromptMsg userPromptText] else []) @
        [RulesMsg, BodyMsg body_text]\<rparr>"

text \<open>The \<open>catch\<close> and \<open>finally\<close> of \<open>generateSummary\<close>.\<close>

definition finishFailed :: "world \<Rightarrow> world" where
  "finishFailed w = (setIsLoading False (setCompletion retryMsg w))\<lparr>abortController := False\<rparr>"

definition finishQuiet :: "world \<Rightarrow> world" where
  "finishQuiet w = (setIsLoading False w)\<lparr>abortController := False\<rparr>"

definition generateSummary ::
  "delta_reader \<Rightarrow> render \<Rightarrow> jstring \<Rightarrow> jstring option \<Rightarrow> response \<Rightarrow> world \<Rightarrow> world" where
  "generateSummary rd r body_text overridePagePrompt resp w =
     (if body_text = [] \<or> \<not> configured (aiConfigStatus (rState r)) then w
      else
        let w1 = stopGeneration w;
            userPromptText = trim (storage_getItem (localStore w1) (JS ''ai:userPrompt'') []);
            pagePromptText =
              trim (case overridePagePrompt of Some t \<Rightarrow> t | None \<Rightarrow> pagePromptSaved (rState r));
            config = aiStorage_getAll (localStore w1);
            w2 = setCompletion [] (setIsLoading True (w1\<lparr>abortController := True\<rparr>));
            w3 = w2\<lparr>requests := requests w2 @ [buildRequest config pagePromptText userPromptText body_text]\<rparr>
        in (case resp of
              FetchFailed \<Rightarrow> finishFailed w3
            | FetchAborted \<Rightarrow> finishQuiet w3
            | HttpError \<Rightarrow> finishFailed w3
            | NoBody \<Rightarrow> finishFailed w3
            | Streaming chunks e \<Rightarrow>
                (let w4 = snd (consumeStream rd chunks w3)
                 in (case e of
                       StreamDone \<Rightarrow> finishQuiet w4
                     | StreamFailed \<Rightarrow> finishFailed w4
                     | StreamAborted \<Rightarrow> finishQuiet w4))))"

section \<open>Cache resolver\<close>

text \<open>
  The exact path: a stored, non-empty string under a truthy key is a hit.  (The source
  wraps each store call in \<open>try\<close>/\<open>catch\<close> and treats a failing store as a miss; the store
  of the model does not fail.)
\<close>

definition exactLookup :: "jstring option \<Rightarrow> world \<Rightarrow> jstring option \<times> world" where
  "exactLookup key w =
     (case key of
        None \<Rightarrow> (None, w)
      | Some k \<Rightarrow>
          if k = [] then (None, w)
          else (case store_getItem k w of
                  (None, w') \<Rightarrow> (None, w')
                | (Some cached, w') \<Rightarrow> if cached \<noteq> [] then (Some cached, w') else (None, w')))"

text \<open>\<open>a.split(/\s+/).filter(Boolean)\<close>: the maximal runs of characters that are not white space.\<close>

fun wordsAcc :: "jstring \<Rightarrow> jstring \<Rightarrow> jstring list" where
  "wordsAcc cur [] = (if cur = [] then [] else [cur])"
| "wordsAcc cur (c # cs) =
     (if isSpace c then (if cur = [] then wordsAcc [] cs else cur # wordsAcc [] cs)
      else wordsAcc (cur @ [c]) cs)"

definition wordsOf :: "jstring \<Rightarrow> jstring list" where
  "wordsOf a = wordsAcc [] a"

text \<open>
  \<open>similarity\<close>: the two \<open>Set\<close>s are lists without duplicates.  The source divides in double
  precision; both counts are at most 400, so quotients of different value stay apart and
  comparing the doubles (also with the double \<open>0.8\<close>) is comparing the fractions.
\<close>

definition similarity :: "jstring \<Rightarrow> jstring \<Rightarrow> rat" where
  "similarity a b =
     (let setA = remdups (wordsOf a);
          setB = remdups (wordsOf b);
          inter = length (filter (\<lambda>t. t \<in> set setB) setA);
          union = length setA + length setB - inter
      in if union = 0 then 0 else of_nat inter / of_nat union)"

text \<open>The loop over the keys of the group: best key, best score, and the world.\<close>

fun scanGroup ::
  "jstring \<Rightarrow> jstring list \<Rightarrow> jstring option \<times> rat \<times> world \<Rightarrow> jstring option \<times> rat \<times> world" where
  "scanGroup cur [] st = st"
| "scanGroup cur (k # ks) (bestKey, bestScore, w) =
     (case store_getItem k w of
        (None, w') \<Rightarrow> scanGroup cur ks (bestKey, bestScore, w')
      | (Some cachedText, w') \<Rightarrow>
          if cachedText = [] then scanGroup cur ks (bestKey, bestScore, w')
          else
            let score = similarity (take 400 cur) (take 400 cachedText)
            in if score > bestScore then scanGroup cur ks (Some k, score, w')
               else scanGroup cur ks (bestKey, bestScore, w'))"

definition fuzzyLookup :: "ExtractResult \<Rightarrow> world \<Rightarrow> jstring option \<times> world" where
  "fuzzyLookup res w =
     (if \<not> truthy (cacheKey res) \<and> truthy (groupPrefix res) \<and> truthy (sigSource res) then
        (case store_keys w of (keys, w1) \<Rightarrow>
           let groupKeys = filter (\<lambda>k. startsWith k (case groupPrefix res of Some g \<Rightarrow> g | None \<Rightarrow> [])) keys
           in (case scanGroup (content res) groupKeys (None, 0, w1) of (bestKey, bestScore, w2) \<Rightarrow>
                 (case bestKey of
                    None \<Rightarrow> (None, w2)
                  | Some bk \<Rightarrow>
                      if bk \<noteq> [] \<and> bestScore \<ge> 4 / 5 then
                        (case store_getItem bk w2 of
                           (None, w3) \<Rightarrow> (None, w3)
                         | (Some cached, w3) \<Rightarrow>
                             if cached \<noteq> [] then (Some cached, w3) else (None, w3))
                      else (None, w2))))
      else (None, w))"

section \<open>The handlers of the panel\<close>

text \<open>
  The write scheduled after generation (\<open>setTimeout(..., 300)\<close>).  Its closure belongs to
  the render that started the effect, so \<open>completion\<close> is that render's value of the state
  variable.
\<close>

definition deferredWrite :: "render \<Rightarrow> jstring \<Rightarrow> world \<Rightarrow> world" where
  "deferredWrite r key w =
     (if completion (rState r) \<noteq> [] then store_setItem key (completion (rState r)) w else w)"

text \<open>
  The callback of the page-change timer: extraction, the exact and the fuzzy cache path,
  generation, and the deferred write, which the model runs right after generation.
\<close>

definition onPageTimer :: "delta_reader \<Rightarrow> render \<Rightarrow> response \<Rightarrow> world \<Rightarrow> world" where
  "onPageTimer rd r resp w =
     (case extractPageContent (rBook r) (rRendition r) (ui w) of (res, p1) \<Rightarrow>
        let w1 = w\<lparr>ui := p1\<lparr>pagePromptDraft := [], pagePromptSaved := [],
                              pageContent := content res\<rparr>\<rparr>
        in (case exactLookup (cacheKey res) w1 of
              (Some cached, w2) \<Rightarrow> setCompletion cached w2
            | (None, w2) \<Rightarrow>
                (case fuzzyLookup res w2 of
                   (Some cached, w3) \<Rightarrow> setCompletion cached w3
                 | (None, w3) \<Rightarrow>
                     let w4 = generateSummary rd r (content res) None resp w3
                     in (case cacheKey res of
                           None \<Rightarrow> w4
                         | Some k \<Rightarrow> if k \<noteq> [] then deferredWrite r k w4 else w4))))"

text \<open>\<open>handleRefreshSummary\<close>: the old entry is removed, nothing is written back.\<close>

definition handleRefreshSummary :: "delta_reader \<Rightarrow> render \<Rightarrow> response \<Rightarrow> world \<Rightarrow> world" where
  "handleRefreshSummary rd r resp w =
     (let w0 = stopGeneration w
      in (case extractPageContent (rBook r) (rRendition r) (ui w0) of (res, p1) \<Rightarrow>
            let w1 = w0\<lparr>ui := p1\<lparr>pageContent := content res\<rparr>\<rparr>;
                w2 = (case cacheKey res of
                        None \<Rightarrow> w1
                      | Some k \<Rightarrow> if k \<noteq> [] then store_removeItem k w1 else w1)
            in generateSummary rd r (content res) None resp w2))"

text \<open>The button that submits the prompt of the current page.\<close>

definition onUpdateClick :: "delta_reader \<Rightarrow> render \<Rightarrow> response \<Rightarrow> world \<Rightarrow> world" where
  "onUpdateClick rd r resp w =
     (case extractPageContent (rBook r) (rRendition r) (ui w) of (res, p1) \<Rightarrow>
        let w1 = w\<lparr>ui := p1\<lparr>pagePromptSaved := pagePromptDraft (rState r)\<rparr>\<rparr>
        in generateSummary rd r (content res) (Some (pagePromptDraft (rState r))) resp w1)"

section \<open>Definitions used in the statements and proofs\<close>

text \<open>
  The length of a window as the specification counts it: the lengths of the selected
  texts plus a joiner of two characters for every paragraph after the first.
\<close>

definition windowLength :: "jstring list \<Rightarrow> nat" where
  "windowLength ts = sum_list (map length ts) + 2 * (length ts - 1)"

text \<open>
  What \<open>pushIdx\<close> keeps true of its three variables: the total is the length of the
  window, no index is selected twice, the texts are the normalized texts of the selected
  paragraphs in order of selection, and every selected index is in range and has text.
\<close>

definition sel_inv :: "element list \<Rightarrow> sel_state \<Rightarrow> bool" where
  "sel_inv ib s \<longleftrightarrow>
     total s = windowLength (texts s) \<and> distinct (selectedIdxs s) \<and>
     length (texts s) = length (selectedIdxs s) \<and>
     texts s = map (\<lambda>i. normalizeWhitespace (textContent (ib ! nat i))) (selectedIdxs s) \<and>
     (\<forall>i \<in> set (selectedIdxs s). 0 \<le> i \<and> i < int (length ib) \<and>
        normalizeWhitespace (textContent (ib ! nat i)) \<noteq> [])"

text \<open>The condition of the loop and the pushes of one iteration, named for the proofs.\<close>

definition loopCond :: "element list \<Rightarrow> nat \<Rightarrow> sel_state \<Rightarrow> bool" where
  "loopCond ib step s \<longleftrightarrow> length (texts s) < maxParas \<and> total s < charBudget \<and> step < length ib"

definition loopPush :: "element list \<Rightarrow> nat \<Rightarrow> sel_state \<Rightarrow> sel_state" where
  "loopPush ib step s =
     (if int step \<le> int (length ib) - 1 - int step then
        let s1 = snd (pushIdx ib (int step) s) in
        if int (length ib) - 1 - int step \<noteq> int step
        then snd (pushIdx ib (int (length ib) - 1 - int step) s1) else s1
      else s)"

text \<open>
  Small documents for the concrete instances.  First the texts and blocks: three
  paragraphs, a block holding white space only, and a document in which every paragraph
  meets the range.
\<close>

definition ex_text :: jstring where
  "ex_text = JS ''The quick brown fox jumps over the lazy dog near the river bank.''"

definition ex_p1 :: element where
  "ex_p1 = \<lparr>elemId = 1, tagName = ''p'', textContent = ex_text\<rparr>"

definition ex_p2 :: element where
  "ex_p2 = \<lparr>elemId = 2, tagName = ''p'', textContent = JS ''Second   paragraph of the page, long enough.''\<rparr>"

definition ex_p3 :: element where
  "ex_p3 = \<lparr>elemId = 3, tagName = ''p'', textContent = JS ''Third paragraph, the last one here.''\<rparr>"

definition ex_blank :: element where
  "ex_blank = \<lparr>elemId = 9, tagName = ''div'', textContent = JS ''  ''\<rparr>"

definition ex_body :: body where
  "ex_body = \<lparr>bodyText = ex_text, blocks = [ex_p1, ex_p2, ex_p3]\<rparr>"

definition ex_doc :: document where
  "ex_doc = \<lparr>docBody = Some ex_body, intersectsNode = (\<lambda>s e x. True)\<rparr>"

text \<open>
  A page with a single qualifying paragraph after a block without text, once with a range
  that every paragraph meets and once with a range that only its boundary blocks meet; a
  page whose only paragraph is short.  The rendering engine reports no location, so the
  middle paragraph becomes the boundary.
\<close>

definition ex_body1 :: body where
  "ex_body1 = \<lparr>bodyText = ex_text, blocks = [ex_blank, ex_p1]\<rparr>"

definition ex_doc1 :: document where
  "ex_doc1 = \<lparr>docBody = Some ex_body1, intersectsNode = (\<lambda>s e x. True)\<rparr>"

definition ex_doc_apart :: document where
  "ex_doc_apart = \<lparr>docBody = Some ex_body1,
     intersectsNode = (\<lambda>s e x. elemId x = elemId s \<or> elemId x = elemId e)\<rparr>"

definition ex_rend :: rendition where
  "ex_rend = \<lparr>getContents = Returned (Some [Some ex_doc1]), currentLocation = None, getRange = None\<rparr>"

text \<open>
  A book and a rendering engine that reports a location: the viewport starts in a text
  node of the second paragraph and ends in an inline element of the third, in spine item
  3, and the range between them meets the paragraphs from the start block to the end
  block.  The initial state of the panel.
\<close>

definition ex_book :: book where
  "ex_book = \<lparr>bookId = JS ''b1'', bookTitle = JS ''Title'', bookAuthor = JS ''Author''\<rparr>"

definition ex_t2 :: jstring where
  "ex_t2 = JS ''Second paragraph of the page, long enough.''"

definition ex_t3 :: jstring where
  "ex_t3 = JS ''Third paragraph, the last one here.''"

definition ex_span :: element where
  "ex_span = \<lparr>elemId = 7, tagName = ''span'', textContent = JS ''last''\<rparr>"

definition ex_doc_ordered :: document where
  "ex_doc_ordered = \<lparr>docBody = Some ex_body,
     intersectsNode = (\<lambda>s e x. elemId s \<le> elemId x \<and> elemId x \<le> elemId e)\<rparr>"

definition ex_loc :: location where
  "ex_loc = \<lparr>startCfi = Some (JS ''cfi-start''), endCfi = Some (JS ''cfi-end''), startIndex = Some 3\<rparr>"

definition ex_getRange :: "jstring \<Rightarrow> dom_range option outcome" where
  "ex_getRange cfi =
     (if cfi = JS ''cfi-start'' then
        Returned (Some \<lparr>startContainer = Some (NonElementNode (Some (ElementNode ex_p2 None))),
                         endContainer = None\<rparr>)
      else if cfi = JS ''cfi-end'' then
        Returned (Some \<lparr>startContainer = None,
                         endContainer = Some (NonElementNode (Some (ElementNode ex_span
                                           (Some (ElementNode ex_p3 None)))))\<rparr>)
      else Returned None)"

definition ex_rend_loc :: rendition where
  "ex_rend_loc = \<lparr>getContents = Returned (Some [Some ex_doc_ordered]),
     currentLocation = Some (Returned (Some ex_loc)), getRange = Some ex_getRange\<rparr>"

definition ex_panel :: panel where
  "ex_panel = \<lparr>aiConfigStatus = \<lparr>configured = False, missing = []\<rparr>, isExtractingContent = False,
     isLoading = False, completion = [], pageContent = [], pagePromptDraft = [],
     pagePromptSaved = []\<rparr>"

definition ex_short_text :: jstring where
  "ex_short_text = JS ''Short paragraph of text.''"

definition ex_short :: element where
  "ex_short = \<lparr>elemId = 4, tagName = ''p'', textContent = ex_short_text\<rparr>"

definition ex_body_short :: body where
  "ex_body_short = \<lparr>bodyText = ex_short_text, blocks = [ex_short]\<rparr>"

definition ex_doc_short :: document where
  "ex_doc_short = \<lparr>docBody = Some ex_body_short, intersectsNode = (\<lambda>s e x. True)\<rparr>"

definition ex_rend_short :: rendition where
  "ex_rend_short =
     \<lparr>getContents = Returned (Some [Some ex_doc_short]), currentLocation = None, getRange = None\<rparr>"

text \<open>
  The hash as the specification words it: multiply by 131 and add the character code,
  every intermediate value an unsigned 32-bit integer.
\<close>

definition rollingHash32 :: "jstring \<Rightarrow> 32 word" where
  "rollingHash32 str = foldl (\<lambda>h c. h * 131 + ucast c) 0 str"

text \<open>
  The position of a block in the collected sequence as the specification means it: the
  first index at which the block itself stands, and -1 when it stands nowhere in the
  sequence.
\<close>

definition isPosition :: "element list \<Rightarrow> element \<Rightarrow> int \<Rightarrow> bool" where
  "isPosition ps b p \<longleftrightarrow>
     (p = - 1 \<and> (\<forall>x \<in> set ps. elemId x \<noteq> elemId b)) \<or>
     (0 \<le> p \<and> nat p < length ps \<and> elemId (ps ! nat p) = elemId b \<and>
      (\<forall>j < nat p. elemId (ps ! j) \<noteq> elemId b))"

text \<open>
  The integer that a decimal numeral denotes: a string of decimal digits, after a minus
  sign for a negative number.
\<close>

definition decimalValue :: "jstring \<Rightarrow> nat" where
  "decimalValue str = foldl (\<lambda>v c. v * 10 + (unat c - 48)) 0 str"

definition intValue :: "jstring \<Rightarrow> int" where
  "intValue str =
     (case str of
        [] \<Rightarrow> 0
      | c # cs \<Rightarrow> if c = 0x2D then - int (decimalValue cs) else int (decimalValue str))"

text \<open>The number that a string of lower-case hexadecimal digits denotes.\<close>

definition hexDigitValue :: "jschar \<Rightarrow> nat" where
  "hexDigitValue c = (if unat c < 58 then unat c - 48 else unat c - 87)"

definition hexValue :: "jstring \<Rightarrow> nat" where
  "hexValue str = foldl (\<lambda>v c. v * 16 + hexDigitValue c) 0 str"

section \<open>Definitions for streaming and generation\<close>

text \<open>
  The text that one line of a chunk contributes: the delta of a well-formed data line, and
  nothing for an empty line, the end marker, a line that is not a data line, a payload
  without delta, or a malformed payload.
\<close>

definition lineDelta :: "delta_reader \<Rightarrow> jstring \<Rightarrow> jstring" where
  "lineDelta rd line =
     (if trim line = [] \<or> trim line = JS ''data: [DONE]'' then []
      else if startsWith (trim line) (JS ''data: '') then
        (case rd (drop 6 (trim line)) of Returned (Some delta) \<Rightarrow> delta | _ \<Rightarrow> [])
      else [])"

text \<open>A data line whose payload cannot be read.\<close>

definition malformedLine :: "delta_reader \<Rightarrow> jstring \<Rightarrow> bool" where
  "malformedLine rd line \<longleftrightarrow>
     trim line \<noteq> [] \<and> trim line \<noteq> JS ''data: [DONE]'' \<and> startsWith (trim line) (JS ''data: '') \<and>
     rd (drop 6 (trim line)) = Threw"

text \<open>All lines of a stream, in arrival order.\<close>

definition streamLines :: "jstring list \<Rightarrow> jstring list" where
  "streamLines chunks = concat (map splitLines chunks)"

text \<open>The visible output follows the accumulated content.\<close>

definition shown :: "jstring \<times> world \<Rightarrow> bool" where
  "shown aw \<longleftrightarrow> completion (ui (snd aw)) = fst aw"

text \<open>Streaming touches the visible output and the warnings only.\<close>

definition sameOutside :: "world \<Rightarrow> world \<Rightarrow> bool" where
  "sameOutside w w' \<longleftrightarrow>
     store w' = store w \<and> storeOps w' = storeOps w \<and> requests w' = requests w \<and>
     localStore w' = localStore w \<and> abortController w' = abortController w \<and>
     (ui w')\<lparr>completion := []\<rparr> = (ui w)\<lparr>completion := []\<rparr>"

text \<open>The world in which the request has just been sent.\<close>

definition requestSent :: "render \<Rightarrow> jstring \<Rightarrow> jstring option \<Rightarrow> world \<Rightarrow> world" where
  "requestSent r body_text opp w =
     (let w1 = stopGeneration w;
          userPromptText = trim (storage_getItem (localStore w1) (JS ''ai:userPrompt'') []);
          pagePromptText = trim (case opp of Some t \<Rightarrow> t | None \<Rightarrow> pagePromptSaved (rState r));
          config = aiStorage_getAll (localStore w1);
          w2 = setCompletion [] (setIsLoading True (w1\<lparr>abortController := True\<rparr>))
      in w2\<lparr>requests := requests w2 @ [buildRequest config pagePromptText userPromptText body_text]\<rparr>)"

section \<open>Definitions for the cache resolver\<close>

text \<open>The store operations that only read.\<close>

fun isReadOp :: "store_op \<Rightarrow> bool" where
  "isReadOp OpKeys = True"
| "isReadOp (OpGet k) = True"
| "isReadOp (OpSet k v) = False"
| "isReadOp (OpRemove k) = False"

text \<open>
  The fuzzy path as the specification words it: the stored keys that share the group
  prefix, the score of a key (the similarity of the first 400 characters of the current
  content and of the cached content), and the maximum score of the group.
\<close>

definition groupKeysOf :: "(jstring \<times> jstring) list \<Rightarrow> jstring \<Rightarrow> jstring list" where
  "groupKeysOf st g = filter (\<lambda>k. startsWith k g) (map fst st)"

definition scoreOf :: "(jstring \<times> jstring) list \<Rightarrow> jstring \<Rightarrow> jstring \<Rightarrow> rat" where
  "scoreOf st cur k =
     (case map_of st k of None \<Rightarrow> 0 | Some v \<Rightarrow> similarity (take 400 cur) (take 400 v))"

definition bestGroupScore :: "(jstring \<times> jstring) list \<Rightarrow> jstring \<Rightarrow> jstring \<Rightarrow> rat" where
  "bestGroupScore st g cur = Max (insert 0 (set (map (scoreOf st cur) (groupKeysOf st g))))"

text \<open>One iteration of the scan without the world, for the proofs.\<close>

definition scanStep ::
  "(jstring \<times> jstring) list \<Rightarrow> jstring \<Rightarrow> jstring option \<times> rat \<Rightarrow> jstring \<Rightarrow> jstring option \<times> rat" where
  "scanStep st cur best k =
     (case map_of st k of
        None \<Rightarrow> best
      | Some cachedText \<Rightarrow>
          if cachedText = [] then best
          else if similarity (take 400 cur) (take 400 cachedText) > snd best
               then (Some k, similarity (take 400 cur) (take 400 cachedText))
               else best)"

text \<open>The best key, once there is one, is a scanned key holding the best score.\<close>

definition bestOk :: "(jstring \<times> jstring) list \<Rightarrow> jstring \<Rightarrow> jstring list \<Rightarrow> jstring option \<times> rat \<Rightarrow> bool" where
  "bestOk st cur ks best \<longleftrightarrow>
     (case fst best of
        None \<Rightarrow> snd best = 0
      | Some k \<Rightarrow> k \<in> set ks \<and>
          (\<exists>v. map_of st k = Some v \<and> v \<noteq> [] \<and> similarity (take 400 cur) (take 400 v) = snd best))"

section \<open>Definitions for the handlers\<close>

text \<open>The result of extraction in a handler, and the world after it (page-change timer).\<close>

definition extracted :: "render \<Rightarrow> world \<Rightarrow> ExtractResult" where
  "extracted r w = fst (extractPageContent (rBook r) (rRendition r) (ui w))"

definition afterExtract :: "render \<Rightarrow> world \<Rightarrow> world" where
  "afterExtract r w =
     w\<lparr>ui := (snd (extractPageContent (rBook r) (rRendition r) (ui w)))
              \<lparr>pagePromptDraft := [], pagePromptSaved := [], pageContent := content (extracted r w)\<rparr>\<rparr>"

section \<open>Example worlds\<close>

text \<open>
  A local storage that holds a credential only (the base URL and the model fall back to
  their defaults), and one that holds nothing.
\<close>

definition ex_ls :: local_storage where
  "ex_ls key = (if key = JS ''ai:apiKey'' then Returned (Some (JS ''sk-test'')) else Returned None)"

definition ex_ls_empty :: local_storage where
  "ex_ls_empty key = Returned None"

text \<open>A world around a panel state and a store.\<close>

definition ex_world :: "panel \<Rightarrow> (jstring \<times> jstring) list \<Rightarrow> world" where
  "ex_world p st = \<lparr>ui = p, localStore = ex_ls, store = st, storeOps = [], requests = [],
     warnings = [], abortController = False\<rparr>"

text \<open>
  Two renders on the page with one paragraph: the first one after the panel opened, with
  nothing shown yet, and one after a page turn, while the summary of the previous page
  is still shown.  A render on the page with the short paragraph, and one of a panel whose
  configuration is incomplete.
\<close>

definition ex_render_first :: render where
  "ex_render_first = \<lparr>rBook = None, rRendition = Some ex_rend, rState = checkAiConfig ex_ls ex_panel\<rparr>"

definition ex_render_next :: render where
  "ex_render_next = \<lparr>rBook = None, rRendition = Some ex_rend,
     rState = (checkAiConfig ex_ls ex_panel)\<lparr>completion := JS ''OLD''\<rparr>\<rparr>"

definition ex_render_short :: render where
  "ex_render_short = \<lparr>rBook = None, rRendition = Some ex_rend_short,
     rState = checkAiConfig ex_ls ex_panel\<rparr>"

definition ex_render_unconfigured :: render where
  "ex_render_unconfigured = \<lparr>rBook = None, rRendition = Some ex_rend,
     rState = checkAiConfig ex_ls_empty ex_panel\<rparr>"

text \<open>
  A reader of payloads and a chunk of four lines: two deltas, a malformed payload between
  them, and the end marker.
\<close>

definition ex_reader :: delta_reader where
  "ex_reader payload =
     (if payload = JS ''{A}'' then Returned (Some (JS ''Hello ''))
      else if payload = JS ''{B}'' then Returned (Some (JS ''world''))
      else if payload = JS ''{}'' then Returned None
      else Threw)"

definition ex_chunks :: "jstring list" where
  "ex_chunks = [JS ''data: {A}'' @ [0x0A] @ JS ''data: {bad'' @ [0x0A, 0x0A] @ JS ''data: {B}'' @ [0x0A]
                @ JS ''data: [DONE]'' @ [0x0A]]"

text \<open>Two stores with one entry in the group of the short page: one close to its text, one far.\<close>

definition ex_near_text :: jstring where
  "ex_near_text = JS ''Short   paragraph of text.''"

definition ex_far_text :: jstring where
  "ex_far_text = JS ''A quite different text.''"

definition ex_store :: "(jstring \<times> jstring) list" where
  "ex_store = [(JS ''books:v2'', JS ''x''), (JS ''ai-summary:unknown:0:3-4:9f'', ex_near_text)]"

definition ex_store_far :: "(jstring \<times> jstring) list" where
  "ex_store_far = [(JS ''ai-summary:unknown:0:3-4:9f'', ex_far_text)]"

section \<open>The character budget\<close>

lemma charBudgetCap_value: "charBudgetCap = 275251"
proof -
  have "\<lfloor>of_nat (131072::nat) * of_nat (3::nat) * (7 / 10 :: rat)\<rfloor> = 275251"
    by (simp add: floor_eq_iff)
  then show ?thesis
    by (simp add: charBudgetCap_def CONTEXT_TOKENS_LIMIT_def TOKEN_TO_CHAR_APPROX_def
        CONTEXT_SAFETY_RATIO_def)
qed

lemma charBudget_value: "charBudget = 40000"
  by (simp add: charBudget_def charBudgetCap_value)

section \<open>The window selector\<close>

lemma length_joinWith:
  "length (joinWith sep ts) = sum_list (map length ts) + length sep * (length ts - 1)"
  by (induction sep ts rule: joinWith.induct) simp_all

lemma pushIdx_cases:
  "snd (pushIdx ib idx s) = s \<or>
   (0 \<le> idx \<and> idx < int (length ib) \<and> idx \<notin> set (selectedIdxs s) \<and>
    normalizeWhitespace (textContent (ib ! nat idx)) \<noteq> [] \<and>
    length (texts s) < maxParas \<and>
    (length (texts s) \<ge> 2 \<longrightarrow>
       total s + length (normalizeWhitespace (textContent (ib ! nat idx))) + (if texts s \<noteq> [] then 2 else 0) \<le> charBudget) \<and>
    snd (pushIdx ib idx s) =
      \<lparr>total = total s + length (normalizeWhitespace (textContent (ib ! nat idx))) + (if texts s \<noteq> [] then 2 else 0),
       texts = texts s @ [normalizeWhitespace (textContent (ib ! nat idx))],
       selectedIdxs = selectedIdxs s @ [idx]\<rparr>)"
  by (auto simp: pushIdx_def Let_def)

lemma pushIdx_pushes:
  assumes "0 \<le> idx" "idx < int (length ib)" "idx \<notin> set (selectedIdxs s)"
    "normalizeWhitespace (textContent (ib ! nat idx)) \<noteq> []" "length (texts s) < 2"
  shows "snd (pushIdx ib idx s) =
      \<lparr>total = total s + length (normalizeWhitespace (textContent (ib ! nat idx))) + (if texts s \<noteq> [] then 2 else 0),
       texts = texts s @ [normalizeWhitespace (textContent (ib ! nat idx))],
       selectedIdxs = selectedIdxs s @ [idx]\<rparr>"
  using assms by (simp add: pushIdx_def Let_def maxParas_def)

lemma sel_inv_init: "sel_inv ib sel_init"
  by (simp add: sel_inv_def sel_init_def windowLength_def)

lemma windowLength_snoc:
  "windowLength (ts @ [t]) = windowLength ts + length t + (if ts \<noteq> [] then 2 else 0)"
  by (cases ts) (simp_all add: windowLength_def)

lemma sel_inv_pushIdx:
  assumes "sel_inv ib s"
  shows "sel_inv ib (snd (pushIdx ib idx s))"
proof -
  from pushIdx_cases [of ib idx s] show ?thesis
  proof
    assume "snd (pushIdx ib idx s) = s"
    with assms show ?thesis by simp
  next
    assume a: "0 \<le> idx \<and> idx < int (length ib) \<and> idx \<notin> set (selectedIdxs s) \<and>
    normalizeWhitespace (textContent (ib ! nat idx)) \<noteq> [] \<and>
    length (texts s) < maxParas \<and>
    (length (texts s) \<ge> 2 \<longrightarrow>
       total s + length (normalizeWhitespace (textContent (ib ! nat idx))) + (if texts s \<noteq> [] then 2 else 0) \<le> charBudget) \<and>
    snd (pushIdx ib idx s) =
      \<lparr>total = total s + length (normalizeWhitespace (textContent (ib ! nat idx))) + (if texts s \<noteq> [] then 2 else 0),
       texts = texts s @ [normalizeWhitespace (textContent (ib ! nat idx))],
       selectedIdxs = selectedIdxs s @ [idx]\<rparr>"
    with assms show ?thesis
      by (simp add: sel_inv_def windowLength_snoc)
  qed
qed

lemma pushIdx_mono: "set (selectedIdxs s) \<subseteq> set (selectedIdxs (snd (pushIdx ib idx s)))"
  using pushIdx_cases [of ib idx s] by auto

lemma pushIdx_texts_mono: "length (texts s) \<le> length (texts (snd (pushIdx ib idx s)))"
  using pushIdx_cases [of ib idx s] by auto

lemma pushIdx_budget:
  "length (texts s) \<ge> 2 \<Longrightarrow> total s \<le> charBudget \<Longrightarrow> total (snd (pushIdx ib idx s)) \<le> charBudget"
  using pushIdx_cases [of ib idx s] by auto

lemma expandLoop_unfold:
  "expandLoop ib step s =
     (if loopCond ib step s then
        (if int step > int (length ib) - 1 - int step then loopPush ib step s
         else expandLoop ib (step + 1) (loopPush ib step s))
      else s)"
  by (subst expandLoop.simps) (simp only: loopCond_def loopPush_def Let_def)

lemma loopPush_preserves:
  fixes s :: sel_state
  assumes "\<And>idx (t::sel_state). P t \<Longrightarrow> P (snd (pushIdx ib idx t))" "P s"
  shows "P (loopPush ib step s)"
  using assms by (simp add: loopPush_def Let_def)

lemma expandLoop_preserves:
  fixes s :: sel_state
  assumes push: "\<And>idx (t::sel_state). P t \<Longrightarrow> P (snd (pushIdx ib idx t))"
  shows "P s \<Longrightarrow> P (expandLoop ib step s)"
proof (induction "length ib - step" arbitrary: step s rule: less_induct)
  case less
  show ?case
  proof (cases "loopCond ib step s")
    case False
    then show ?thesis using less.prems by (subst expandLoop_unfold) simp
  next
    case True
    have Ps': "P (loopPush ib step s)"
      using push less.prems by (rule loopPush_preserves)
    show ?thesis
    proof (cases "int step > int (length ib) - 1 - int step")
      case True
      with \<open>loopCond ib step s\<close> Ps' show ?thesis
        by (subst expandLoop_unfold) simp
    next
      case False
      have "step < length ib"
        using True by (simp add: loopCond_def)
      then have "length ib - (step + 1) < length ib - step"
        by arith
      then have "P (expandLoop ib (step + 1) (loopPush ib step s))"
        using Ps' by (rule less.hyps)
      with True False show ?thesis
        by (subst expandLoop_unfold) simp
    qed
  qed
qed

lemma expandLoop_inv: "sel_inv ib s \<Longrightarrow> sel_inv ib (expandLoop ib step s)"
  by (rule expandLoop_preserves [where P = "sel_inv ib"]) (simp_all add: sel_inv_pushIdx)

lemma expandLoop_mono: "set (selectedIdxs s) \<subseteq> set (selectedIdxs (expandLoop ib step s))"
proof (rule expandLoop_preserves [where P = "\<lambda>t. set (selectedIdxs s) \<subseteq> set (selectedIdxs t)"])
  fix idx and t :: sel_state
  assume "set (selectedIdxs s) \<subseteq> set (selectedIdxs t)"
  then show "set (selectedIdxs s) \<subseteq> set (selectedIdxs (snd (pushIdx ib idx t)))"
    using pushIdx_mono [of t ib idx] by blast
qed simp

lemma expandLoop_budget:
  assumes "length (texts s) \<ge> 2"
  shows "expandLoop ib step s = s \<or> total (expandLoop ib step s) \<le> charBudget"
proof (cases "loopCond ib step s")
  case False
  then show ?thesis by (subst expandLoop_unfold) simp
next
  case True
  have "2 \<le> length (texts (expandLoop ib step s)) \<and> total (expandLoop ib step s) \<le> charBudget"
  proof (rule expandLoop_preserves [where P = "\<lambda>t. 2 \<le> length (texts t) \<and> total t \<le> charBudget"])
    fix idx and t :: sel_state
    assume "2 \<le> length (texts t) \<and> total t \<le> charBudget"
    then show "2 \<le> length (texts (snd (pushIdx ib idx t))) \<and> total (snd (pushIdx ib idx t)) \<le> charBudget"
      using pushIdx_budget [of t ib idx] pushIdx_texts_mono [of t ib idx] by linarith
  next
    show "2 \<le> length (texts s) \<and> total s \<le> charBudget" using assms True by (simp add: loopCond_def)
  qed
  then show ?thesis by simp
qed

lemma expandLoop_small:
  assumes "length ib \<le> 2" "1 \<le> step"
  shows "expandLoop ib step s = s"
  using assms by (subst expandLoop_unfold) (auto simp: loopCond_def loopPush_def)

lemma pushBoundaries_inv: "sel_inv ib (pushBoundaries ib)"
  by (simp add: pushBoundaries_def Let_def sel_inv_pushIdx sel_inv_init)

lemma selectWindow_inv: "sel_inv ib (selectWindow ib)"
  by (simp add: selectWindow_def expandLoop_inv pushBoundaries_inv)

lemma pushIdx_new: "set (selectedIdxs (snd (pushIdx ib idx s))) \<subseteq> insert idx (set (selectedIdxs s))"
  using pushIdx_cases [of ib idx s] by auto

lemma pushBoundaries_idxs:
  "set (selectedIdxs (pushBoundaries ib)) \<subseteq> {0, int (length ib) - 1}"
proof -
  have a: "set (selectedIdxs (snd (pushIdx ib 0 sel_init))) \<subseteq> {0}"
    using pushIdx_new [of ib 0 sel_init] by (simp add: sel_init_def)
  show ?thesis
  proof (cases "length ib > 1")
    case True
    then show ?thesis
      using a pushIdx_new [of ib "int (length ib) - 1" "snd (pushIdx ib 0 sel_init)"]
      by (auto simp: pushBoundaries_def Let_def)
  next
    case False
    then show ?thesis using a by (auto simp: pushBoundaries_def Let_def)
  qed
qed

lemma pushBoundaries_first:
  assumes "ib \<noteq> []" "normalizeWhitespace (textContent (ib ! 0)) \<noteq> []"
  shows "snd (pushIdx ib 0 sel_init) =
     \<lparr>total = length (normalizeWhitespace (textContent (ib ! 0))),
      texts = [normalizeWhitespace (textContent (ib ! 0))], selectedIdxs = [0]\<rparr>"
  using assms pushIdx_pushes [of 0 ib sel_init] by (simp add: sel_init_def)

lemma pushBoundaries_has_first:
  assumes "ib \<noteq> []" "normalizeWhitespace (textContent (ib ! 0)) \<noteq> []"
  shows "0 \<in> set (selectedIdxs (pushBoundaries ib))"
proof -
  have "0 \<in> set (selectedIdxs (snd (pushIdx ib 0 sel_init)))"
    using pushBoundaries_first [OF assms] by simp
  then show ?thesis
    using pushIdx_mono [of "snd (pushIdx ib 0 sel_init)" ib "int (length ib) - 1"]
    by (auto simp: pushBoundaries_def Let_def)
qed

lemma pushBoundaries_has_last:
  assumes "ib \<noteq> []" "normalizeWhitespace (textContent (ib ! (length ib - 1))) \<noteq> []"
  shows "int (length ib) - 1 \<in> set (selectedIdxs (pushBoundaries ib))"
proof (cases "length ib > 1")
  case False
  with assms have l: "length ib = 1" by (cases ib) auto
  with assms pushBoundaries_has_first [of ib] show ?thesis by simp
next
  case True
  define s0 where "s0 = snd (pushIdx ib 0 sel_init)"
  have "length (texts s0) \<le> 1 \<and> set (selectedIdxs s0) \<subseteq> {0}"
    using pushIdx_cases [of ib 0 sel_init] by (auto simp: s0_def sel_init_def)
  then have "snd (pushIdx ib (int (length ib) - 1) s0) =
      \<lparr>total = total s0 + length (normalizeWhitespace (textContent (ib ! nat (int (length ib) - 1))))
                 + (if texts s0 \<noteq> [] then 2 else 0),
       texts = texts s0 @ [normalizeWhitespace (textContent (ib ! nat (int (length ib) - 1)))],
       selectedIdxs = selectedIdxs s0 @ [int (length ib) - 1]\<rparr>"
    using True assms(2)
    by (intro pushIdx_pushes) (auto simp: nat_diff_distrib')
  then show ?thesis using True by (simp add: pushBoundaries_def Let_def s0_def)
qed

lemma pushBoundaries_two:
  assumes "length ib > 1" "normalizeWhitespace (textContent (ib ! 0)) \<noteq> []"
    "normalizeWhitespace (textContent (ib ! (length ib - 1))) \<noteq> []"
  shows "length (texts (pushBoundaries ib)) = 2"
proof -
  have "ib \<noteq> []" using assms(1) by auto
  have d: "distinct (selectedIdxs (pushBoundaries ib))"
    and l: "length (texts (pushBoundaries ib)) = length (selectedIdxs (pushBoundaries ib))"
    using pushBoundaries_inv [of ib] by (simp_all add: sel_inv_def)
  have "set (selectedIdxs (pushBoundaries ib)) = {0, int (length ib) - 1}"
    using pushBoundaries_idxs [of ib] pushBoundaries_has_first [OF \<open>ib \<noteq> []\<close> assms(2)]
      pushBoundaries_has_last [OF \<open>ib \<noteq> []\<close> assms(3)] by auto
  then have "card (set (selectedIdxs (pushBoundaries ib))) = 2"
    using assms(1) by simp
  then show ?thesis using d l by (simp add: distinct_card)
qed

lemma collect_nonblank:
  "el \<in> set (collectParagraphElements b) \<Longrightarrow> normalizeWhitespace (textContent el) \<noteq> []"
  by (auto simp: collectParagraphElements_def)

lemma inBetweenOf_cases:
  "inBetweenOf doc ps sb eb = [sb] \<or>
   (inBetweenOf doc ps sb eb \<noteq> [] \<and> set (inBetweenOf doc ps sb eb) \<subseteq> set ps)"
  by (auto simp: inBetweenOf_def Let_def)

lemma inBetweenOf_nonempty: "inBetweenOf doc ps sb eb \<noteq> []"
  by (auto simp: inBetweenOf_def Let_def)

lemma selectWindow_budget_nonblank:
  assumes "\<forall>el \<in> set ib. normalizeWhitespace (textContent el) \<noteq> []"
  shows "selectWindow ib = pushBoundaries ib \<or> total (selectWindow ib) \<le> charBudget"
proof (cases "length ib \<le> 2")
  case True
  then show ?thesis by (simp add: selectWindow_def expandLoop_small)
next
  case False
  then have n: "length ib > 1" by simp
  have "0 < length ib" using False by arith
  then have "ib ! 0 \<in> set ib" by (rule nth_mem)
  then have f: "normalizeWhitespace (textContent (ib ! 0)) \<noteq> []"
    using assms by blast
  have "length ib - 1 < length ib" using False by arith
  then have "ib ! (length ib - 1) \<in> set ib" by (rule nth_mem)
  then have l: "normalizeWhitespace (textContent (ib ! (length ib - 1))) \<noteq> []"
    using assms by blast
  have "length (texts (pushBoundaries ib)) = 2"
    using n f l by (rule pushBoundaries_two)
  then show ?thesis
    using expandLoop_budget [of "pushBoundaries ib" ib 1] by (simp add: selectWindow_def)
qed

lemma selectWindow_budget:
  "selectWindow (inBetweenOf doc (collectParagraphElements b) sb eb)
     = pushBoundaries (inBetweenOf doc (collectParagraphElements b) sb eb) \<or>
   total (selectWindow (inBetweenOf doc (collectParagraphElements b) sb eb)) \<le> charBudget"
proof -
  from inBetweenOf_cases [of doc "collectParagraphElements b" sb eb] show ?thesis
  proof
    assume "inBetweenOf doc (collectParagraphElements b) sb eb = [sb]"
    then show ?thesis by (simp add: selectWindow_def expandLoop_small)
  next
    assume "inBetweenOf doc (collectParagraphElements b) sb eb \<noteq> [] \<and>
      set (inBetweenOf doc (collectParagraphElements b) sb eb) \<subseteq> set (collectParagraphElements b)"
    then have "\<forall>el \<in> set (inBetweenOf doc (collectParagraphElements b) sb eb).
       normalizeWhitespace (textContent el) \<noteq> []"
      using collect_nonblank by blast
    then show ?thesis by (rule selectWindow_budget_nonblank)
  qed
qed

lemma windowContext_length: "length (windowContext ib) = total (selectWindow ib)"
  using selectWindow_inv [of ib]
  by (simp add: windowContext_def length_joinWith sel_inv_def windowLength_def JS_def)

text \<open>
  Claim C2.  For the in-between sequence that extraction builds from the collected
  (qualifying) paragraphs and the boundary blocks, the length of the joined window is the
  sum of the normalized lengths of the selected paragraphs plus two characters per
  paragraph after the first, and it never exceeds the character budget, the lesser of the
  configured cap and 40000, unless the window is exactly what the two forced boundary
  pushes selected, which are made regardless of the budget.
\<close>

theorem C2_window_within_budget:
  "(let ib = inBetweenOf doc (collectParagraphElements b) sb eb; sel = selectWindow ib
    in length (windowContext ib) = windowLength (texts sel) \<and>
       (windowLength (texts sel) \<le> min charBudgetCap 40000 \<or>
        (sel = pushBoundaries ib \<and> set (selectedIdxs sel) \<subseteq> {0, int (length ib) - 1})))"
proof -
  define ib where "ib = inBetweenOf doc (collectParagraphElements b) sb eb"
  have t: "total (selectWindow ib) = windowLength (texts (selectWindow ib))"
    using selectWindow_inv [of ib] by (simp add: sel_inv_def)
  have "selectWindow ib = pushBoundaries ib \<or> total (selectWindow ib) \<le> charBudget"
    unfolding ib_def by (rule selectWindow_budget)
  then have "windowLength (texts (selectWindow ib)) \<le> min charBudgetCap 40000 \<or>
        (selectWindow ib = pushBoundaries ib \<and>
         set (selectedIdxs (selectWindow ib)) \<subseteq> {0, int (length ib) - 1})"
    using t pushBoundaries_idxs [of ib] by (auto simp: charBudget_def)
  then show ?thesis
    using t windowContext_length [of ib] by (simp add: Let_def ib_def)
qed

text \<open>
  Claim C3, as amended.  In a non-empty in-between sequence the paragraph at index 0 is in
  the final selection exactly when its normalized text is not empty, and so is the
  paragraph at index \<open>n - 1\<close>; no index is selected twice, so a single paragraph is
  counted once.
\<close>

theorem C3_boundaries_selected:
  assumes "ib \<noteq> []"
  shows "(0 \<in> set (selectedIdxs (selectWindow ib))
            \<longleftrightarrow> normalizeWhitespace (textContent (ib ! 0)) \<noteq> []) \<and>
         (int (length ib) - 1 \<in> set (selectedIdxs (selectWindow ib))
            \<longleftrightarrow> normalizeWhitespace (textContent (ib ! (length ib - 1))) \<noteq> []) \<and>
         distinct (selectedIdxs (selectWindow ib))"
proof -
  have inv: "sel_inv ib (selectWindow ib)" by (rule selectWindow_inv)
  have mono: "set (selectedIdxs (pushBoundaries ib)) \<subseteq> set (selectedIdxs (selectWindow ib))"
    by (simp add: selectWindow_def expandLoop_mono)
  have a: "normalizeWhitespace (textContent (ib ! 0)) \<noteq> [] \<Longrightarrow> 0 \<in> set (selectedIdxs (selectWindow ib))"
    using pushBoundaries_has_first [OF assms] mono by blast
  have b: "normalizeWhitespace (textContent (ib ! (length ib - 1))) \<noteq> []
      \<Longrightarrow> int (length ib) - 1 \<in> set (selectedIdxs (selectWindow ib))"
    using pushBoundaries_has_last [OF assms] mono by blast
  have c: "0 \<in> set (selectedIdxs (selectWindow ib)) \<Longrightarrow> normalizeWhitespace (textContent (ib ! 0)) \<noteq> []"
    using inv by (auto simp: sel_inv_def)
  have "nat (int (length ib) - 1) = length ib - 1" by simp
  then have d: "int (length ib) - 1 \<in> set (selectedIdxs (selectWindow ib))
      \<Longrightarrow> normalizeWhitespace (textContent (ib ! (length ib - 1))) \<noteq> []"
    using inv unfolding sel_inv_def by metis
  show ?thesis using a b c d inv by (auto simp: sel_inv_def)
qed

lemma ex_blank_text: "normalizeWhitespace (textContent ex_blank) = []"
  by (simp add: ex_blank_def normalizeWhitespace_def trim_def JS_def isSpace_def)

lemma ex_text_norm: "normalizeWhitespace ex_text = ex_text"
  by (simp add: normalizeWhitespace_def trim_def JS_def isSpace_def ex_text_def)

lemma ex_text_length: "length ex_text = 64"
  by (simp add: JS_def ex_text_def)

lemma ex_apart:
  "inBetweenOf ex_doc_apart (collectParagraphElements ex_body1) ex_blank ex_blank = [ex_blank]"
proof -
  have "collectParagraphElements ex_body1 = [ex_p1]"
    by (simp add: collectParagraphElements_def ex_body1_def ex_blank_text)
      (simp add: ex_p1_def ex_text_norm ex_text_length)
  then show ?thesis
    by (simp add: inBetweenOf_def ex_doc_apart_def) (simp add: ex_p1_def ex_blank_def)
qed

text \<open>
  Claim C3 as stated fails when the start block holds white space only and no collected
  paragraph meets the range: the in-between sequence is the start block alone, and
  \<open>pushIdx\<close> returns before selecting it.
\<close>

theorem C3_counterexample:
  "inBetweenOf ex_doc_apart (collectParagraphElements ex_body1) ex_blank ex_blank = [ex_blank] \<and>
   [ex_blank] \<noteq> [] \<and> 0 \<notin> set (selectedIdxs (selectWindow [ex_blank]))"
  by (simp add: ex_apart selectWindow_def expandLoop_small pushBoundaries_def pushIdx_def ex_blank_text
      sel_init_def)

section \<open>The signature and the key\<close>

lemma ucast_unat: "unat (ucast (c :: 16 word) :: 32 word) = unat c"
proof -
  have "uint (ucast c :: 32 word) = uint c"
    by (rule uint_up_ucast) (simp add: is_up)
  then show ?thesis
    by (simp only: unat_eq_nat_uint)
qed

lemma hashStep_word: "hashStep (unat (w :: 32 word)) c = unat (w * 131 + ucast c)"
proof -
  have "unat (w * 131 + ucast c) = (unat (w * 131) + unat (ucast c :: 32 word)) mod 2 ^ 32"
    by (simp only: unat_word_ariths) simp
  also have "unat (w * 131) = (unat w * 131) mod 2 ^ 32"
    by (simp only: unat_word_ariths) simp
  finally show ?thesis
    by (simp only: hashStep_def ucast_unat mod_add_left_eq)
qed

lemma foldl_hashStep_word:
  "foldl hashStep (unat (w :: 32 word)) str = unat (foldl (\<lambda>h c. h * 131 + ucast c) w str)"
  by (induction str arbitrary: w) (simp_all add: hashStep_word)

lemma stableHash_rolling: "stableHash str = toStringRadix 16 (unat (rollingHash32 str))"
  using foldl_hashStep_word [of 0 str] by (simp add: stableHash_def rollingHash32_def)

lemma unat_digitChar: "d < 16 \<Longrightarrow> unat (digitChar d) = (if d < 10 then 48 + d else 87 + d)"
proof -
  assume d: "d < 16"
  have "unat (of_nat (48 + d) :: 16 word) = (48 + d) mod 2 ^ LENGTH(16)"
    by (rule unat_of_nat)
  also have "\<dots> = 48 + d" using d by simp
  finally have a: "unat (of_nat (48 + d) :: 16 word) = 48 + d" .
  have "unat (of_nat (87 + d) :: 16 word) = (87 + d) mod 2 ^ LENGTH(16)"
    by (rule unat_of_nat)
  also have "\<dots> = 87 + d" using d by simp
  finally have b: "unat (of_nat (87 + d) :: 16 word) = 87 + d" .
  show ?thesis using a b by (simp only: digitChar_def split: if_split) simp
qed

lemma hexDigitValue_digitChar: "d < 16 \<Longrightarrow> hexDigitValue (digitChar d) = d"
  by (simp add: hexDigitValue_def unat_digitChar)

lemma toStringRadix_small: "n < 16 \<Longrightarrow> toStringRadix 16 n = [digitChar n]"
  by (subst toStringRadix.simps) simp

lemma toStringRadix_big:
  "\<not> n < 16 \<Longrightarrow> toStringRadix 16 n = toStringRadix 16 (n div 16) @ [digitChar (n mod 16)]"
  by (subst toStringRadix.simps) simp

lemma hexValue_toStringRadix: "hexValue (toStringRadix 16 n) = n"
proof (induction n rule: less_induct)
  case (less n)
  show ?case
  proof (cases "n < 16")
    case True
    then show ?thesis
      by (simp add: toStringRadix_small hexValue_def hexDigitValue_digitChar)
  next
    case False
    then have "n div 16 < n" by simp
    then have "hexValue (toStringRadix 16 (n div 16)) = n div 16" by (rule less.IH)
    then show ?thesis using False
      by (simp add: toStringRadix_big hexValue_def hexDigitValue_digitChar)
  qed
qed

lemma textAt_first: "ib \<noteq> [] \<Longrightarrow> textAt ib 0 = normalizeWhitespace (textContent (hd ib))"
  by (cases ib) (simp_all add: textAt_def)

lemma textAt_last: "ib \<noteq> [] \<Longrightarrow> textAt ib (length ib - Suc 0) = normalizeWhitespace (textContent (last ib))"
  by (cases ib rule: rev_cases) (simp_all add: textAt_def)

lemma extractWindow_key:
  assumes "cacheKey (extractWindow bk doc b spineId ps sb eb) = Some k"
  shows "k = groupPrefixOf bk spineId @ centerPart ps sb eb @ JS '':'' @
              stableHash (paraHashSource (inBetweenOf doc ps sb eb))"
    and "groupPrefix (extractWindow bk doc b spineId ps sb eb) = Some (groupPrefixOf bk spineId)"
    and "content (extractWindow bk doc b spineId ps sb eb) = windowContext (inBetweenOf doc ps sb eb)"
    and "length (windowContext (inBetweenOf doc ps sb eb)) \<ge> 50"
  using assms by (auto simp: extractWindow_def Let_def groupPrefixOf_def split: if_splits)

lemma findIndexFrom_none:
  "\<forall>x \<in> set xs. elemId x \<noteq> elemId b \<Longrightarrow> findIndexFrom i xs b = - 1"
  by (induction xs arbitrary: i) simp_all

lemma findIndexFrom_first:
  "n < length xs \<Longrightarrow> elemId (xs ! n) = elemId b \<Longrightarrow> \<forall>j < n. elemId (xs ! j) \<noteq> elemId b \<Longrightarrow>
     findIndexFrom i xs b = i + int n"
proof (induction xs arbitrary: i n)
  case Nil
  then show ?case by simp
next
  case (Cons x xs)
  show ?case
  proof (cases n)
    case 0
    then show ?thesis using Cons.prems by simp
  next
    case (Suc m)
    have x: "elemId x \<noteq> elemId b" using Cons.prems(3) Suc by auto
    have "m < length xs" "elemId (xs ! m) = elemId b" "\<forall>j < m. elemId (xs ! j) \<noteq> elemId b"
      using Cons.prems Suc by auto
    then have "findIndexFrom (i + 1) xs b = i + 1 + int m" by (rule Cons.IH)
    then show ?thesis using x Suc by simp
  qed
qed

lemma findIndex_position: "isPosition ps b p \<Longrightarrow> findIndex ps b = p"
  unfolding isPosition_def findIndex_def
  using findIndexFrom_none [of ps b 0] findIndexFrom_first [of "nat p" ps b 0] by auto

lemma unat_digitChar10: "d < 10 \<Longrightarrow> unat (digitChar d) = 48 + d"
  using unat_digitChar [of d] by simp

lemma toStringRadix10_small: "n < 10 \<Longrightarrow> toStringRadix 10 n = [digitChar n]"
  by (subst toStringRadix.simps) simp

lemma toStringRadix10_big:
  "\<not> n < 10 \<Longrightarrow> toStringRadix 10 n = toStringRadix 10 (n div 10) @ [digitChar (n mod 10)]"
  by (subst toStringRadix.simps) simp

lemma decimalValue_toStringRadix: "decimalValue (toStringRadix 10 n) = n"
proof (induction n rule: less_induct)
  case (less n)
  show ?case
  proof (cases "n < 10")
    case True
    then show ?thesis
      by (simp add: toStringRadix10_small decimalValue_def unat_digitChar10)
  next
    case False
    then have "n div 10 < n" by simp
    then have "decimalValue (toStringRadix 10 (n div 10)) = n div 10" by (rule less.IH)
    then show ?thesis using False
      by (simp add: toStringRadix10_big decimalValue_def unat_digitChar10)
  qed
qed

lemma toStringRadix10_digits: "\<forall>c \<in> set (toStringRadix 10 n). 48 \<le> unat c \<and> unat c \<le> 57"
proof (induction n rule: less_induct)
  case (less n)
  show ?case
  proof (cases "n < 10")
    case True
    then show ?thesis
      by (simp add: toStringRadix10_small unat_digitChar10)
  next
    case False
    then have "n div 10 < n" by simp
    then have "\<forall>c \<in> set (toStringRadix 10 (n div 10)). 48 \<le> unat c \<and> unat c \<le> 57"
      by (rule less.IH)
    then show ?thesis using False
      by (simp add: toStringRadix10_big unat_digitChar10)
  qed
qed

lemma toStringRadix10_ne: "toStringRadix 10 n \<noteq> []"
  by (cases "n < 10") (simp_all add: toStringRadix10_small toStringRadix10_big)

lemma intValue_numToString: "intValue (numToString i) = i"
proof (cases "i < 0")
  case True
  then show ?thesis
    by (simp add: numToString_def intValue_def JS_def decimalValue_toStringRadix)
next
  case False
  obtain c cs where s: "toStringRadix 10 (nat i) = c # cs"
    using toStringRadix10_ne [of "nat i"] by (cases "toStringRadix 10 (nat i)") auto
  then have "48 \<le> unat c" using toStringRadix10_digits [of "nat i"] by simp
  then have "c \<noteq> 0x2D" by auto
  then have "intValue (toStringRadix 10 (nat i)) = int (decimalValue (toStringRadix 10 (nat i)))"
    by (simp add: intValue_def s)
  then show ?thesis using False by (simp add: numToString_def decimalValue_toStringRadix)
qed

lemma locateBlocks_spine:
  "currentLocation rn = Some (Returned (Some loc)) \<Longrightarrow>
     fst (locateBlocks rn) = map_option numToString (startIndex loc)"
  by (simp add: locateBlocks_def Let_def split: outcome.splits)

text \<open>
  Claim C5.  A cache key, when one is derived, is the string
  \<open>ai-summary:{bookId}:{spineId}:{centerPart}:{hash}\<close>.  Here \<open>bookId\<close> is the id of the
  book (\<open>unknown\<close> without a book or with an empty id) and \<open>spineId\<close> the spine id handed
  on by the block locator (\<open>0\<close> when there is none), which is the decimal numeral of the
  spine index that the rendering engine reports.  \<open>centerPart\<close> is the decimal numeral of
  the lesser and that of the greater position of the two boundary blocks in the collected
  sequence, joined by a dash, a position being the first index at which the block stands
  and -1 when it stands nowhere.  \<open>hash\<close> is the base-131 rolling hash, truncated to 32
  bits at every step, of the first 120 normalized characters of the first in-between
  paragraph, a bar, and the first 120 normalized characters of the last one, written as
  the hexadecimal numeral of its value.  The key that extraction returns is the key of
  the window between the boundary blocks that the locator and its fallback determine.
\<close>

theorem C5_cache_key_format:
  assumes "cacheKey (extractWindow bk doc b spineId ps sb eb) = Some k"
    and "isPosition ps sb p" and "isPosition ps eb q"
  shows "k = JS ''ai-summary:'' @
             (case bk of None \<Rightarrow> JS ''unknown''
              | Some bo \<Rightarrow> if bookId bo = [] then JS ''unknown'' else bookId bo) @ JS '':'' @
             (case spineId of None \<Rightarrow> JS ''0'' | Some sp \<Rightarrow> if sp = [] then JS ''0'' else sp) @ JS '':'' @
             (numToString (min p q) @ JS ''-'' @ numToString (max p q)) @ JS '':'' @
             toStringRadix 16 (unat (rollingHash32
               (take 120 (normalizeWhitespace (textContent (hd (inBetweenOf doc ps sb eb)))) @ JS ''|'' @
                take 120 (normalizeWhitespace (textContent (last (inBetweenOf doc ps sb eb)))))))
         \<and> intValue (numToString (min p q)) = min p q
         \<and> intValue (numToString (max p q)) = max p q
         \<and> hexValue (toStringRadix 16 (unat (rollingHash32
               (take 120 (normalizeWhitespace (textContent (hd (inBetweenOf doc ps sb eb)))) @ JS ''|'' @
                take 120 (normalizeWhitespace (textContent (last (inBetweenOf doc ps sb eb))))))))
             = unat (rollingHash32
               (take 120 (normalizeWhitespace (textContent (hd (inBetweenOf doc ps sb eb)))) @ JS ''|'' @
                take 120 (normalizeWhitespace (textContent (last (inBetweenOf doc ps sb eb))))))
         \<and> (currentLocation rn = Some (Returned (Some loc)) \<and> startIndex loc = Some idx \<longrightarrow>
               fst (locateBlocks rn) = Some (numToString idx) \<and> intValue (numToString idx) = idx)
         \<and> (getContents rn = Returned (Some (Some doc # rest)) \<and> docBody doc = Some b \<and>
            locateBlocks rn = (spineId, sb0, eb0) \<and> collectParagraphElements b = ps \<and> ps \<noteq> [] \<and>
            boundaryBlocks ps sb0 eb0 = (Some sb, Some eb) \<longrightarrow>
               fst (extractPageContent bk (Some rn) pn) = extractWindow bk doc b spineId ps sb eb)"
proof -
  have ne: "inBetweenOf doc ps sb eb \<noteq> []" by (rule inBetweenOf_nonempty)
  have sig: "paraHashSource (inBetweenOf doc ps sb eb) =
      take 120 (normalizeWhitespace (textContent (hd (inBetweenOf doc ps sb eb)))) @ JS ''|'' @
      take 120 (normalizeWhitespace (textContent (last (inBetweenOf doc ps sb eb))))"
    by (simp add: paraHashSource_def textAt_first [OF ne] textAt_last [OF ne])
  have bo: "bookIdPart bk = (case bk of None \<Rightarrow> JS ''unknown''
              | Some bo \<Rightarrow> if bookId bo = [] then JS ''unknown'' else bookId bo)"
    by (simp add: bookIdPart_def orElse_def split: option.splits)
  have sp: "spinePart spineId = (case spineId of None \<Rightarrow> JS ''0'' | Some sp \<Rightarrow> if sp = [] then JS ''0'' else sp)"
    by (simp add: spinePart_def orElse_def split: option.splits)
  have cp: "centerPart ps sb eb = numToString (min p q) @ JS ''-'' @ numToString (max p q)"
    by (simp add: centerPart_def Let_def findIndex_position [OF assms(2)] findIndex_position [OF assms(3)])
  have key: "k = JS ''ai-summary:'' @ bookIdPart bk @ JS '':'' @ spinePart spineId @ JS '':'' @
        centerPart ps sb eb @ JS '':'' @ stableHash (paraHashSource (inBetweenOf doc ps sb eb))"
    using extractWindow_key(1) [OF assms(1)] by (simp add: groupPrefixOf_def)
  have k: "k = JS ''ai-summary:'' @
             (case bk of None \<Rightarrow> JS ''unknown''
              | Some bo \<Rightarrow> if bookId bo = [] then JS ''unknown'' else bookId bo) @ JS '':'' @
             (case spineId of None \<Rightarrow> JS ''0'' | Some sp \<Rightarrow> if sp = [] then JS ''0'' else sp) @ JS '':'' @
             (numToString (min p q) @ JS ''-'' @ numToString (max p q)) @ JS '':'' @
             toStringRadix 16 (unat (rollingHash32
               (take 120 (normalizeWhitespace (textContent (hd (inBetweenOf doc ps sb eb)))) @ JS ''|'' @
                take 120 (normalizeWhitespace (textContent (last (inBetweenOf doc ps sb eb)))))))"
    unfolding key bo sp cp sig stableHash_rolling by simp
  have spine: "currentLocation rn = Some (Returned (Some loc)) \<and> startIndex loc = Some idx \<longrightarrow>
               fst (locateBlocks rn) = Some (numToString idx) \<and> intValue (numToString idx) = idx"
    using locateBlocks_spine [of rn loc] by (simp add: intValue_numToString)
  have whole: "getContents rn = Returned (Some (Some doc # rest)) \<and> docBody doc = Some b \<and>
            locateBlocks rn = (spineId, sb0, eb0) \<and> collectParagraphElements b = ps \<and> ps \<noteq> [] \<and>
            boundaryBlocks ps sb0 eb0 = (Some sb, Some eb) \<longrightarrow>
               fst (extractPageContent bk (Some rn) pn) = extractWindow bk doc b spineId ps sb eb"
    by (auto simp: extractPageContent_def extractFromBody_def)
  show ?thesis
    using k spine whole by (simp only: intValue_numToString hexValue_toStringRadix simp_thms)
qed

lemma nullResult_fields [simp]:
  "cacheKey (nullResult c) = None" "groupPrefix (nullResult c) = None"
  "sigSource (nullResult c) = None" "content (nullResult c) = c"
  by (simp_all add: nullResult_def)

lemma extractFromBody_cases:
  "(\<exists>c. extractFromBody bk r doc b = nullResult c) \<or>
   (\<exists>spineId sb eb. extractFromBody bk r doc b =
       extractWindow bk doc b spineId (collectParagraphElements b) sb eb)"
  by (auto simp: extractFromBody_def Let_def split: prod.splits option.splits)

lemma extractPageContent_cases:
  "(\<exists>c. fst (extractPageContent bk rend p) = nullResult c) \<or>
   (\<exists>doc b spineId sb eb. fst (extractPageContent bk rend p) =
       extractWindow bk doc b spineId (collectParagraphElements b) sb eb)"
proof (cases rend)
  case None
  then show ?thesis by (auto simp: extractPageContent_def)
next
  case (Some r)
  show ?thesis
  proof (cases "\<exists>doc rest b. getContents r = Returned (Some (Some doc # rest)) \<and> docBody doc = Some b")
    case True
    then obtain doc rest b where g: "getContents r = Returned (Some (Some doc # rest))" "docBody doc = Some b"
      by blast
    then have "fst (extractPageContent bk rend p) = extractFromBody bk r doc b"
      using Some by (simp add: extractPageContent_def)
    then show ?thesis using extractFromBody_cases [of bk r doc b] by metis
  next
    case False
    then have "\<exists>c. fst (extractPageContent bk rend p) = nullResult c"
      using Some
      by (auto simp: extractPageContent_def Let_def split: outcome.splits option.splits list.splits)
    then show ?thesis by blast
  qed
qed

lemma startsWith_append: "startsWith (p @ s) p"
  by (simp add: startsWith_def)

text \<open>
  Claim C6.  The cache key that extraction returns depends on the book and on what the
  rendering engine returns, and on nothing else: it is the same from any two states of
  the panel, and running extraction again in the state that the first run left gives the
  same result.
\<close>

theorem C6_extraction_deterministic:
  "cacheKey (fst (extractPageContent bk rend p)) = cacheKey (fst (extractPageContent bk rend p')) \<and>
   fst (extractPageContent bk rend (snd (extractPageContent bk rend p))) = fst (extractPageContent bk rend p)"
  by (simp add: extractPageContent_def split: option.splits)

section \<open>Concrete instances\<close>

lemma toStringRadix_numeral:
  "toStringRadix b (numeral n) =
     (if b < 2 \<or> numeral n < b then [digitChar (numeral n)]
      else toStringRadix b (numeral n div b) @ [digitChar (numeral n mod b)])"
  by (rule toStringRadix.simps)

lemma toStringRadix_zero: "toStringRadix 16 0 = [digitChar 0]" "toStringRadix 10 0 = [digitChar 0]"
  by (subst toStringRadix.simps, simp)+

lemma ex_text_ne: "ex_text \<noteq> []"
  using ex_text_length by auto

lemma ex_hash: "stableHash (ex_text @ JS ''|'' @ ex_text) = JS ''24d1b55c''"
  by (simp add: stableHash_def hashStep_def ex_text_def JS_def toStringRadix_numeral digitChar_def)

lemma ex_window: "selectWindow [ex_p1] = \<lparr>total = 64, texts = [ex_text], selectedIdxs = [0]\<rparr>"
  by (simp add: selectWindow_def expandLoop_small pushBoundaries_def pushIdx_def sel_init_def
      ex_p1_def ex_text_norm ex_text_length ex_text_ne maxParas_def)

lemma ex_inBetween: "inBetweenOf ex_doc1 [ex_p1] ex_p1 ex_p1 = [ex_p1]"
  by (simp add: inBetweenOf_def ex_doc1_def)

lemma ex_window_result:
  "extractWindow None ex_doc1 ex_body1 None [ex_p1] ex_p1 ex_p1 =
     \<lparr>content = ex_text, cacheKey = Some (JS ''ai-summary:unknown:0:0-0:24d1b55c''),
      groupPrefix = Some (JS ''ai-summary:unknown:0:''),
      sigSource = Some (ex_text @ JS ''|'' @ ex_text)\<rparr>"
proof -
  have c: "windowContext [ex_p1] = ex_text"
    by (simp add: windowContext_def ex_window)
  have s: "paraHashSource [ex_p1] = ex_text @ JS ''|'' @ ex_text"
    by (simp add: paraHashSource_def textAt_def ex_p1_def ex_text_norm ex_text_length)
  then have h: "stableHash (paraHashSource [ex_p1]) = JS ''24d1b55c''"
    by (simp only: ex_hash)
  have p: "centerPart [ex_p1] ex_p1 ex_p1 = JS ''0-0''"
    by (simp add: centerPart_def findIndex_def numToString_def toStringRadix_zero digitChar_def JS_def)
  have q: "bookIdPart None = JS ''unknown''" "spinePart None = JS ''0''"
    by (simp_all add: bookIdPart_def spinePart_def orElse_def JS_def)
  have g: "groupPrefixOf None None = JS ''ai-summary:unknown:0:''"
    by (simp add: groupPrefixOf_def q) (simp add: JS_def)
  have "extractWindow None ex_doc1 ex_body1 None [ex_p1] ex_p1 ex_p1 =
     \<lparr>content = ex_text,
      cacheKey = Some (JS ''ai-summary:'' @ JS ''unknown'' @ JS '':'' @ JS ''0'' @ JS '':'' @ JS ''0-0'' @ JS '':''
            @ JS ''24d1b55c''),
      groupPrefix = Some (JS ''ai-summary:unknown:0:''),
      sigSource = Some (ex_text @ JS ''|'' @ ex_text)\<rparr>"
    by (simp add: extractWindow_def Let_def ex_inBetween c ex_hash p q g s ex_text_ne ex_text_length)
  then show ?thesis by (simp add: JS_def)
qed

lemma ex_key:
  "cacheKey (extractWindow None ex_doc1 ex_body1 None [ex_p1] ex_p1 ex_p1)
     = Some (JS ''ai-summary:unknown:0:0-0:24d1b55c'')"
  by (simp add: ex_window_result)

lemma ex_collect: "collectParagraphElements ex_body1 = [ex_p1]"
  by (simp add: collectParagraphElements_def ex_body1_def ex_blank_text)
    (simp add: ex_p1_def ex_text_norm ex_text_length)

lemma ex_extract:
  "fst (extractPageContent None (Some ex_rend) p) =
     \<lparr>content = ex_text, cacheKey = Some (JS ''ai-summary:unknown:0:0-0:24d1b55c''),
      groupPrefix = Some (JS ''ai-summary:unknown:0:''),
      sigSource = Some (ex_text @ JS ''|'' @ ex_text)\<rparr>"
proof -
  have "locateBlocks ex_rend = (None, None, None)"
    by (simp add: locateBlocks_def ex_rend_def resolveBlock_def)
  moreover have "boundaryBlocks [ex_p1] None None = (Some ex_p1, Some ex_p1)"
    by (simp add: boundaryBlocks_def Let_def)
  ultimately have "extractFromBody None ex_rend ex_doc1 ex_body1 =
      extractWindow None ex_doc1 ex_body1 None [ex_p1] ex_p1 ex_p1"
    by (simp add: extractFromBody_def ex_collect)
  moreover have "fst (extractPageContent None (Some ex_rend) p) = extractFromBody None ex_rend ex_doc1 ex_body1"
    by (simp add: extractPageContent_def ex_rend_def ex_doc1_def)
  ultimately show ?thesis by (simp only: ex_window_result)
qed

lemma ex_short_norm: "normalizeWhitespace ex_short_text = ex_short_text"
  by (simp add: normalizeWhitespace_def trim_def JS_def isSpace_def ex_short_text_def)

lemma ex_short_length: "length ex_short_text = 24"
  by (simp add: JS_def ex_short_text_def)

lemma ex_short_ne: "ex_short_text \<noteq> []"
  using ex_short_length by auto

lemma ex_short_window: "windowContext [ex_short] = ex_short_text"
  by (simp add: windowContext_def selectWindow_def expandLoop_small pushBoundaries_def pushIdx_def
      sel_init_def ex_short_def ex_short_norm ex_short_ne maxParas_def)

lemma ex_short_inBetween: "inBetweenOf ex_doc_short [ex_short] ex_short ex_short = [ex_short]"
  by (simp add: inBetweenOf_def ex_doc_short_def)

lemma ex_short_collect: "collectParagraphElements ex_body_short = [ex_short]"
  by (simp add: collectParagraphElements_def ex_body_short_def ex_short_def ex_short_norm
      ex_short_length)

lemma ex_short_extract:
  "fst (extractPageContent None (Some ex_rend_short) p) =
     \<lparr>content = ex_short_text, cacheKey = None,
      groupPrefix = Some (JS ''ai-summary:unknown:0:''),
      sigSource = Some (ex_short_text @ JS ''|'' @ ex_short_text)\<rparr>"
proof -
  have "locateBlocks ex_rend_short = (None, None, None)"
    by (simp add: locateBlocks_def ex_rend_short_def resolveBlock_def)
  moreover have "boundaryBlocks [ex_short] None None = (Some ex_short, Some ex_short)"
    by (simp add: boundaryBlocks_def Let_def)
  ultimately have "extractFromBody None ex_rend_short ex_doc_short ex_body_short =
      extractWindow None ex_doc_short ex_body_short None [ex_short] ex_short ex_short"
    by (simp add: extractFromBody_def ex_short_collect)
  moreover have "fst (extractPageContent None (Some ex_rend_short) p)
      = extractFromBody None ex_rend_short ex_doc_short ex_body_short"
    by (simp add: extractPageContent_def ex_rend_short_def ex_doc_short_def)
  moreover have "paraHashSource [ex_short] = ex_short_text @ JS ''|'' @ ex_short_text"
    by (simp add: paraHashSource_def textAt_def ex_short_def ex_short_norm ex_short_length)
  moreover have "groupPrefixOf None None = JS ''ai-summary:unknown:0:''"
    by (simp add: groupPrefixOf_def bookIdPart_def spinePart_def orElse_def JS_def)
  moreover have "orElse (take fallbackMaxChars (normalizeWhitespace (bodyText ex_body_short))) noContentMsg
      = ex_short_text"
    by (simp add: ex_body_short_def ex_short_norm fallbackMaxChars_def charBudgetCap_value orElse_def
        ex_short_length ex_short_ne)
  ultimately show ?thesis
    by (simp add: extractWindow_def Let_def ex_short_inBetween ex_short_window ex_short_length)
qed

theorem C3_boundaries_witness:
  "[ex_p1, ex_p2, ex_p3] \<noteq> [] \<and>
   0 \<in> set (selectedIdxs (selectWindow [ex_p1, ex_p2, ex_p3])) \<and>
   2 \<in> set (selectedIdxs (selectWindow [ex_p1, ex_p2, ex_p3]))"
proof -
  have ne: "[ex_p1, ex_p2, ex_p3] \<noteq> []" by simp
  have a: "normalizeWhitespace (textContent ex_p1) \<noteq> []"
    by (simp add: ex_p1_def ex_text_norm ex_text_ne)
  have b: "normalizeWhitespace (textContent ex_p3) \<noteq> []"
    by (simp add: ex_p3_def normalizeWhitespace_def trim_def JS_def isSpace_def)
  show ?thesis using C3_boundaries_selected [OF ne] a b by simp
qed

lemma ex_p2_norm:
  "normalizeWhitespace (textContent ex_p2) = JS ''Second paragraph of the page, long enough.''"
  by (simp add: ex_p2_def normalizeWhitespace_def trim_def JS_def isSpace_def)

lemma ex_p3_norm:
  "normalizeWhitespace (textContent ex_p3) = JS ''Third paragraph, the last one here.''"
  by (simp add: ex_p3_def normalizeWhitespace_def trim_def JS_def isSpace_def)

lemma ex_p1_norm: "normalizeWhitespace (textContent ex_p1) = ex_text"
  by (simp add: ex_p1_def ex_text_norm)

lemma ex_collect3: "collectParagraphElements ex_body = [ex_p1, ex_p2, ex_p3]"
  by (simp add: collectParagraphElements_def ex_body_def ex_p1_norm ex_p2_norm ex_p3_norm ex_text_length)
    (simp add: JS_def)

lemma ex_inBetween3: "inBetweenOf ex_doc [ex_p1, ex_p2, ex_p3] ex_p1 ex_p3 = [ex_p1, ex_p2, ex_p3]"
  by (simp add: inBetweenOf_def ex_doc_def)

lemma ex_select3:
  "selectWindow [ex_p1, ex_p2, ex_p3] =
     \<lparr>total = 145,
      texts = [ex_text, JS ''Third paragraph, the last one here.'',
               JS ''Second paragraph of the page, long enough.''],
      selectedIdxs = [0, 2, 1]\<rparr>"
proof -
  have b: "pushBoundaries [ex_p1, ex_p2, ex_p3] =
     \<lparr>total = 101, texts = [ex_text, JS ''Third paragraph, the last one here.''], selectedIdxs = [0, 2]\<rparr>"
    by (simp add: pushBoundaries_def pushIdx_def sel_init_def ex_p1_norm ex_p3_norm ex_text_ne
        ex_text_length maxParas_def Let_def) (simp add: JS_def)
  have l: "loopPush [ex_p1, ex_p2, ex_p3] (Suc 0)
      \<lparr>total = 101, texts = [ex_text, JS ''Third paragraph, the last one here.''], selectedIdxs = [0, 2]\<rparr> =
     \<lparr>total = 145,
      texts = [ex_text, JS ''Third paragraph, the last one here.'',
               JS ''Second paragraph of the page, long enough.''],
      selectedIdxs = [0, 2, 1]\<rparr>"
    by (simp add: loopPush_def pushIdx_def ex_p2_norm maxParas_def charBudget_value Let_def)
      (simp add: JS_def)
  have e2: "\<And>s. expandLoop [ex_p1, ex_p2, ex_p3] (Suc (Suc 0)) s = s"
    by (subst expandLoop_unfold) (simp add: loopPush_def)
  have "expandLoop [ex_p1, ex_p2, ex_p3] 1
      \<lparr>total = 101, texts = [ex_text, JS ''Third paragraph, the last one here.''], selectedIdxs = [0, 2]\<rparr> =
     \<lparr>total = 145,
      texts = [ex_text, JS ''Third paragraph, the last one here.'',
               JS ''Second paragraph of the page, long enough.''],
      selectedIdxs = [0, 2, 1]\<rparr>"
    by (subst expandLoop_unfold) (simp add: loopCond_def maxParas_def charBudget_value l e2)
  then show ?thesis by (simp add: selectWindow_def b)
qed

theorem C2_window_witness:
  "(let ib = inBetweenOf ex_doc (collectParagraphElements ex_body) ex_p1 ex_p3; sel = selectWindow ib
    in length (windowContext ib) = windowLength (texts sel) \<and>
       (windowLength (texts sel) \<le> min charBudgetCap 40000 \<or>
        (sel = pushBoundaries ib \<and> set (selectedIdxs sel) \<subseteq> {0, int (length ib) - 1}))) \<and>
   length (windowContext (inBetweenOf ex_doc (collectParagraphElements ex_body) ex_p1 ex_p3)) = 145 \<and>
   selectedIdxs (selectWindow (inBetweenOf ex_doc (collectParagraphElements ex_body) ex_p1 ex_p3)) = [0, 2, 1]"
proof -
  have "windowLength (texts (selectWindow [ex_p1, ex_p2, ex_p3])) = 145"
    by (simp add: ex_select3 windowLength_def ex_text_length) (simp add: JS_def)
  then show ?thesis
    using C2_window_within_budget [of ex_doc ex_body ex_p1 ex_p3]
    by (simp add: Let_def ex_collect3 ex_inBetween3 ex_select3)
qed

lemma ex_p2_t: "normalizeWhitespace (textContent ex_p2) = ex_t2"
  by (simp add: ex_p2_norm ex_t2_def)

lemma ex_p3_t: "normalizeWhitespace (textContent ex_p3) = ex_t3"
  by (simp add: ex_p3_norm ex_t3_def)

lemma ex_t_lengths: "length ex_t2 = 42" "length ex_t3 = 35"
  by (simp_all add: ex_t2_def ex_t3_def JS_def)

lemma ex_t_ne: "ex_t2 \<noteq> []" "ex_t3 \<noteq> []"
  using ex_t_lengths by auto

lemma ex_hash_ordered: "stableHash (ex_t2 @ JS ''|'' @ ex_t3) = JS ''f1706bc9''"
  by (simp add: stableHash_def hashStep_def ex_t2_def ex_t3_def JS_def toStringRadix_numeral digitChar_def)

lemma ex_inBetween_ordered:
  "inBetweenOf ex_doc_ordered [ex_p1, ex_p2, ex_p3] ex_p2 ex_p3 = [ex_p2, ex_p3]"
  by (simp add: inBetweenOf_def ex_doc_ordered_def) (simp add: ex_p1_def ex_p2_def ex_p3_def)

lemma ex_window_ordered:
  "selectWindow [ex_p2, ex_p3] = \<lparr>total = 79, texts = [ex_t2, ex_t3], selectedIdxs = [0, 1]\<rparr>"
  by (simp add: selectWindow_def expandLoop_small pushBoundaries_def pushIdx_def sel_init_def
      ex_p2_t ex_p3_t ex_t_lengths ex_t_ne maxParas_def Let_def)

lemma ex_positions:
  "isPosition [ex_p1, ex_p2, ex_p3] ex_p2 1" "isPosition [ex_p1, ex_p2, ex_p3] ex_p3 2"
  by (simp_all add: isPosition_def ex_p1_def ex_p2_def ex_p3_def less_Suc_eq numeral_2_eq_2)

lemma ex_numerals: "numToString 1 = JS ''1''" "numToString 2 = JS ''2''" "numToString 3 = JS ''3''"
  by (simp_all add: numToString_def toStringRadix10_small digitChar_def JS_def)

lemma ex_key_ordered:
  "cacheKey (extractWindow (Some ex_book) ex_doc_ordered ex_body (Some (JS ''3'')) [ex_p1, ex_p2, ex_p3]
       ex_p2 ex_p3) = Some (JS ''ai-summary:b1:3:1-2:f1706bc9'')"
proof -
  have c: "windowContext [ex_p2, ex_p3] = ex_t2 @ JS [CHR 0x0A, CHR 0x0A] @ ex_t3"
    by (simp add: windowContext_def ex_window_ordered)
  have l: "length (windowContext [ex_p2, ex_p3]) = 79"
    by (simp add: c ex_t_lengths JS_def)
  have s: "paraHashSource [ex_p2, ex_p3] = ex_t2 @ JS ''|'' @ ex_t3"
    by (simp add: paraHashSource_def textAt_def ex_p2_t ex_p3_t ex_t_lengths)
  have p: "centerPart [ex_p1, ex_p2, ex_p3] ex_p2 ex_p3 = JS ''1-2''"
    by (simp add: centerPart_def Let_def findIndex_position [OF ex_positions(1)]
        findIndex_position [OF ex_positions(2)] ex_numerals) (simp add: JS_def)
  have q: "bookIdPart (Some ex_book) = JS ''b1''" "spinePart (Some (JS ''3'')) = JS ''3''"
    by (simp_all add: bookIdPart_def spinePart_def orElse_def ex_book_def JS_def)
  have n: "windowContext [ex_p2, ex_p3] \<noteq> []" using l by auto
  have "cacheKey (extractWindow (Some ex_book) ex_doc_ordered ex_body (Some (JS ''3'')) [ex_p1, ex_p2, ex_p3]
       ex_p2 ex_p3) =
      Some (JS ''ai-summary:'' @ JS ''b1'' @ JS '':'' @ JS ''3'' @ JS '':'' @ JS ''1-2'' @ JS '':''
            @ JS ''f1706bc9'')"
    by (simp add: extractWindow_def Let_def ex_inBetween_ordered l n s ex_hash_ordered p q)
  then show ?thesis by (simp add: JS_def)
qed

lemma ex_locate: "locateBlocks ex_rend_loc = (Some (JS ''3''), Some ex_p2, Some ex_p3)"
proof -
  have m: "matchesSelector ex_p2" "matchesSelector ex_p3" "\<not> matchesSelector ex_span"
    by (simp_all add: matchesSelector_def PARAGRAPH_SELECTOR_def ex_p2_def ex_p3_def ex_span_def)
  have g: "ex_getRange (JS ''cfi-start'') =
        Returned (Some \<lparr>startContainer = Some (NonElementNode (Some (ElementNode ex_p2 None))),
                         endContainer = None\<rparr>)"
    "ex_getRange (JS ''cfi-end'') =
        Returned (Some \<lparr>startContainer = None,
                         endContainer = Some (NonElementNode (Some (ElementNode ex_span
                                           (Some (ElementNode ex_p3 None)))))\<rparr>)"
    by (simp_all add: ex_getRange_def JS_def)
  have ne: "JS ''cfi-start'' \<noteq> []" "JS ''cfi-end'' \<noteq> []" by (simp_all add: JS_def)
  have s: "resolveBlock ex_rend_loc (Some (JS ''cfi-start'')) startContainer = Returned (Some ex_p2)"
    by (simp add: resolveBlock_def ex_rend_loc_def g ne m)
  have e: "resolveBlock ex_rend_loc (Some (JS ''cfi-end'')) endPick = Returned (Some ex_p3)"
    by (simp add: resolveBlock_def ex_rend_loc_def g ne m endPick_def)
  have c: "currentLocation ex_rend_loc = Some (Returned (Some ex_loc))"
    by (simp add: ex_rend_loc_def)
  show ?thesis
    by (simp add: locateBlocks_def c Let_def) (simp add: ex_loc_def s e ex_numerals)
qed

theorem C5_cache_key_witness:
  "cacheKey (extractWindow (Some ex_book) ex_doc_ordered ex_body (Some (JS ''3'')) [ex_p1, ex_p2, ex_p3]
       ex_p2 ex_p3) = Some (JS ''ai-summary:b1:3:1-2:f1706bc9'') \<and>
   isPosition [ex_p1, ex_p2, ex_p3] ex_p2 1 \<and> isPosition [ex_p1, ex_p2, ex_p3] ex_p3 2 \<and>
   JS ''ai-summary:b1:3:1-2:f1706bc9'' =
     JS ''ai-summary:'' @ JS ''b1'' @ JS '':'' @ JS ''3'' @ JS '':'' @
       (numToString 1 @ JS ''-'' @ numToString 2) @ JS '':'' @
       toStringRadix 16 (unat (rollingHash32 (take 120 ex_t2 @ JS ''|'' @ take 120 ex_t3))) \<and>
   intValue (numToString 1) = 1 \<and> intValue (numToString 2) = 2 \<and>
   currentLocation ex_rend_loc = Some (Returned (Some ex_loc)) \<and> startIndex ex_loc = Some 3 \<and>
   fst (locateBlocks ex_rend_loc) = Some (numToString 3) \<and>
   cacheKey (fst (extractPageContent (Some ex_book) (Some ex_rend_loc) ex_panel))
     = Some (JS ''ai-summary:b1:3:1-2:f1706bc9'')"
proof -
  note t = C5_cache_key_format [OF ex_key_ordered ex_positions, where rn = ex_rend_loc and loc = ex_loc
      and idx = 3 and rest = "[]" and ?sb0.0 = "Some ex_p2" and ?eb0.0 = "Some ex_p3" and pn = ex_panel]
  have c: "currentLocation ex_rend_loc = Some (Returned (Some ex_loc))" "startIndex ex_loc = Some 3"
    by (simp_all add: ex_rend_loc_def ex_loc_def)
  have g: "getContents ex_rend_loc = Returned (Some (Some ex_doc_ordered # []))" "docBody ex_doc_ordered = Some ex_body"
    by (simp_all add: ex_rend_loc_def ex_doc_ordered_def)
  have b: "boundaryBlocks [ex_p1, ex_p2, ex_p3] (Some ex_p2) (Some ex_p3) = (Some ex_p2, Some ex_p3)"
    by (simp add: boundaryBlocks_def Let_def)
  have whole: "fst (extractPageContent (Some ex_book) (Some ex_rend_loc) ex_panel) =
      extractWindow (Some ex_book) ex_doc_ordered ex_body (Some (JS ''3'')) [ex_p1, ex_p2, ex_p3] ex_p2 ex_p3"
    using t g ex_locate ex_collect3 b by simp
  have hd: "hd (inBetweenOf ex_doc_ordered [ex_p1, ex_p2, ex_p3] ex_p2 ex_p3) = ex_p2"
    "last (inBetweenOf ex_doc_ordered [ex_p1, ex_p2, ex_p3] ex_p2 ex_p3) = ex_p3"
    by (simp_all add: ex_inBetween_ordered)
  have bo: "bookId ex_book = JS ''b1''" "JS ''b1'' \<noteq> []" "JS ''3'' \<noteq> []"
    by (simp_all add: ex_book_def JS_def)
  have k: "JS ''ai-summary:b1:3:1-2:f1706bc9'' =
     JS ''ai-summary:'' @ JS ''b1'' @ JS '':'' @ JS ''3'' @ JS '':'' @
       (numToString 1 @ JS ''-'' @ numToString 2) @ JS '':'' @
       toStringRadix 16 (unat (rollingHash32 (take 120 ex_t2 @ JS ''|'' @ take 120 ex_t3)))"
    using t by (simp add: hd ex_p2_t ex_p3_t bo)
  show ?thesis
    using t c k whole ex_key_ordered ex_positions by simp
qed

section \<open>Streaming\<close>

lemma foldl_invariant:
  "(\<And>a x. P a \<Longrightarrow> P (f a x)) \<Longrightarrow> P a \<Longrightarrow> P (foldl f a xs)"
  by (induction xs arbitrary: a) simp_all

lemma processLine_fst: "fst (processLine rd (acc, w) line) = acc @ lineDelta rd line"
  by (simp add: processLine_def lineDelta_def Let_def split: outcome.splits option.splits)

lemma processLine_malformed:
  "malformedLine rd line \<Longrightarrow>
     processLine rd (acc, w) line = (acc, w\<lparr>warnings := warnings w @ [trim line]\<rparr>)"
  by (simp add: processLine_def malformedLine_def Let_def)

lemma lineDelta_malformed: "malformedLine rd line \<Longrightarrow> lineDelta rd line = []"
  by (simp add: lineDelta_def malformedLine_def)

lemma foldl_processLine_fst:
  "fst (foldl (processLine rd) aw ls) = fst aw @ concat (map (lineDelta rd) ls)"
proof (induction ls arbitrary: aw)
  case Nil
  then show ?case by simp
next
  case (Cons l ls)
  obtain acc w where aw: "aw = (acc, w)" by (cases aw)
  show ?case using Cons [of "processLine rd aw l"] processLine_fst [of rd acc w l]
    by (simp add: aw)
qed

lemma processChunk_fst:
  "fst (processChunk rd aw chunk) = fst aw @ concat (map (lineDelta rd) (splitLines chunk))"
  by (simp add: processChunk_def foldl_processLine_fst)

lemma foldl_processChunk_fst:
  "fst (foldl (processChunk rd) aw chunks) = fst aw @ concat (map (lineDelta rd) (streamLines chunks))"
proof (induction chunks arbitrary: aw)
  case Nil
  then show ?case by (simp add: streamLines_def)
next
  case (Cons c cs)
  show ?case using Cons [of "processChunk rd aw c"]
    by (simp add: processChunk_fst streamLines_def)
qed

lemma consumeStream_fst:
  "fst (consumeStream rd chunks w) = concat (map (lineDelta rd) (streamLines chunks))"
  by (simp add: consumeStream_def foldl_processChunk_fst)

lemma processLine_shown: "shown aw \<Longrightarrow> shown (processLine rd aw line)"
  by (cases aw)
    (simp add: shown_def processLine_def Let_def setCompletion_def split: outcome.splits option.splits)

lemma consumeStream_shown:
  assumes "completion (ui w) = []"
  shows "completion (ui (snd (consumeStream rd chunks w))) = fst (consumeStream rd chunks w)"
proof -
  have "shown (foldl (processChunk rd) ([], w) chunks)"
  proof (rule foldl_invariant [where P = shown])
    fix a :: "jstring \<times> world" and x assume "shown a"
    then show "shown (processChunk rd a x)"
      unfolding processChunk_def by (rule foldl_invariant [where P = shown, rotated]) (rule processLine_shown)
  next
    show "shown ([], w)" using assms by (simp add: shown_def)
  qed
  then show ?thesis by (simp add: shown_def consumeStream_def)
qed

lemma processLine_sameOutside:
  "sameOutside w (snd aw) \<Longrightarrow> sameOutside w (snd (processLine rd aw line))"
  by (cases aw)
    (simp add: sameOutside_def processLine_def Let_def setCompletion_def split: outcome.splits option.splits)

lemma consumeStream_sameOutside: "sameOutside w (snd (consumeStream rd chunks w))"
proof -
  have "sameOutside w (snd (foldl (processChunk rd) ([], w) chunks))"
  proof (rule foldl_invariant [where P = "\<lambda>aw :: jstring \<times> world. sameOutside w (snd aw)"])
    fix a :: "jstring \<times> world" and x assume "sameOutside w (snd a)"
    then show "sameOutside w (snd (processChunk rd a x))"
      unfolding processChunk_def
      by (rule foldl_invariant [where P = "\<lambda>aw :: jstring \<times> world. sameOutside w (snd aw)", rotated])
        (rule processLine_sameOutside)
  next
    show "sameOutside w (snd ([], w))" by (simp add: sameOutside_def)
  qed
  then show ?thesis by (simp add: consumeStream_def)
qed

section \<open>Generation\<close>

lemma generateSummary_refused:
  "body_text = [] \<or> \<not> configured (aiConfigStatus (rState r)) \<Longrightarrow>
     generateSummary rd r body_text opp resp w = w"
  by (auto simp: generateSummary_def)

lemma requestSent_fields:
  "completion (ui (requestSent r body_text opp w)) = []"
  "store (requestSent r body_text opp w) = store w"
  "storeOps (requestSent r body_text opp w) = storeOps w"
  "length (requests (requestSent r body_text opp w)) = Suc (length (requests w))"
  by (simp_all add: requestSent_def Let_def setCompletion_def setIsLoading_def stopGeneration_def)

lemma requestSent_requests:
  "requests (requestSent r body_text opp w) =
     requests w @ [buildRequest (aiStorage_getAll (localStore w))
        (trim (case opp of Some t \<Rightarrow> t | None \<Rightarrow> pagePromptSaved (rState r)))
        (trim (storage_getItem (localStore w) (JS ''ai:userPrompt'') [])) body_text]"
  by (simp add: requestSent_def Let_def setCompletion_def setIsLoading_def stopGeneration_def)

lemma generateSummary_sent:
  assumes "body_text \<noteq> []" "configured (aiConfigStatus (rState r))"
  shows "generateSummary rd r body_text opp resp w =
     (case resp of
        FetchFailed \<Rightarrow> finishFailed (requestSent r body_text opp w)
      | FetchAborted \<Rightarrow> finishQuiet (requestSent r body_text opp w)
      | HttpError \<Rightarrow> finishFailed (requestSent r body_text opp w)
      | NoBody \<Rightarrow> finishFailed (requestSent r body_text opp w)
      | Streaming chunks e \<Rightarrow>
          (case e of
             StreamDone \<Rightarrow> finishQuiet (snd (consumeStream rd chunks (requestSent r body_text opp w)))
           | StreamFailed \<Rightarrow> finishFailed (snd (consumeStream rd chunks (requestSent r body_text opp w)))
           | StreamAborted \<Rightarrow> finishQuiet (snd (consumeStream rd chunks (requestSent r body_text opp w)))))"
  using assms by (simp add: generateSummary_def requestSent_def Let_def split: response.splits stream_end.splits)

lemma finish_fields:
  "completion (ui (finishFailed w)) = retryMsg"
  "completion (ui (finishQuiet w)) = completion (ui w)"
  "store (finishFailed w) = store w" "store (finishQuiet w) = store w"
  "storeOps (finishFailed w) = storeOps w" "storeOps (finishQuiet w) = storeOps w"
  "requests (finishFailed w) = requests w" "requests (finishQuiet w) = requests w"
  by (simp_all add: finishFailed_def finishQuiet_def setCompletion_def setIsLoading_def)

lemma consumeStream_fields:
  "store (snd (consumeStream rd chunks w)) = store w"
  "storeOps (snd (consumeStream rd chunks w)) = storeOps w"
  "requests (snd (consumeStream rd chunks w)) = requests w"
  using consumeStream_sameOutside [of w rd chunks] by (simp_all add: sameOutside_def)

lemma generateSummary_store:
  "store (generateSummary rd r body_text opp resp w) = store w \<and>
   storeOps (generateSummary rd r body_text opp resp w) = storeOps w"
proof (cases "body_text = [] \<or> \<not> configured (aiConfigStatus (rState r))")
  case True
  then show ?thesis by (simp add: generateSummary_refused)
next
  case False
  then show ?thesis
    by (simp add: generateSummary_sent finish_fields consumeStream_fields requestSent_fields
        split: response.splits stream_end.splits)
qed

lemma generateSummary_requests:
  "length (requests (generateSummary rd r body_text opp resp w)) =
     (if body_text = [] \<or> \<not> configured (aiConfigStatus (rState r)) then length (requests w)
      else Suc (length (requests w)))"
proof (cases "body_text = [] \<or> \<not> configured (aiConfigStatus (rState r))")
  case True
  then show ?thesis by (simp add: generateSummary_refused)
next
  case False
  then show ?thesis
    by (simp add: generateSummary_sent finish_fields consumeStream_fields requestSent_fields
        split: response.splits stream_end.splits)
qed

lemma generateSummary_requests_sent:
  assumes "body_text \<noteq> []" "configured (aiConfigStatus (rState r))"
  shows "requests (generateSummary rd r body_text opp resp w) = requests (requestSent r body_text opp w)"
  using assms
  by (simp add: generateSummary_sent finish_fields consumeStream_fields
      split: response.splits stream_end.splits)

lemma generateSummary_completion:
  assumes "body_text \<noteq> []" "configured (aiConfigStatus (rState r))"
  shows "completion (ui (generateSummary rd r body_text opp resp w)) =
     (case resp of
        FetchFailed \<Rightarrow> retryMsg
      | FetchAborted \<Rightarrow> []
      | HttpError \<Rightarrow> retryMsg
      | NoBody \<Rightarrow> retryMsg
      | Streaming chunks e \<Rightarrow>
          (case e of
             StreamDone \<Rightarrow> concat (map (lineDelta rd) (streamLines chunks))
           | StreamFailed \<Rightarrow> retryMsg
           | StreamAborted \<Rightarrow> concat (map (lineDelta rd) (streamLines chunks))))"
  using assms
  by (simp add: generateSummary_sent finish_fields requestSent_fields consumeStream_shown
      consumeStream_fst split: response.splits stream_end.splits)

lemma malformed_skipped:
  assumes "malformedLine rd bad"
  shows "fst (foldl (processLine rd) aw (before @ [bad] @ after))
           = fst (foldl (processLine rd) aw (before @ after))"
proof -
  have "concat (map (lineDelta rd) (before @ [bad] @ after)) = concat (map (lineDelta rd) (before @ after))"
    using assms by (simp add: lineDelta_malformed)
  then show ?thesis by (simp only: foldl_processLine_fst)
qed

text \<open>
  Claim C9.  A malformed data line leaves the accumulated content as it was and is
  reported, and the lines after it are consumed as if it had not been there; the
  accumulated content is the concatenation of the deltas of the well-formed lines in
  arrival order; a response outside 2xx, a network failure or a failing stream replaces
  the visible output with the retry message, the fourteen characters U+751F U+6210 U+603B
  U+7ED3 U+65F6 U+51FA U+73B0 U+9519 U+8BEF U+FF0C U+8BF7 U+91CD U+8BD5 U+3002 of the
  source, while after an abort the visible output is the content accumulated so far
  (nothing, when the request itself was aborted, which a failed request never shows).
\<close>

theorem C9_stream_consumption:
  "(malformedLine rd bad \<longrightarrow>
      processLine rd (acc, w) bad = (acc, w\<lparr>warnings := warnings w @ [trim bad]\<rparr>) \<and>
      fst (foldl (processLine rd) (acc, w) (before @ [bad] @ after))
        = fst (foldl (processLine rd) (acc, w) (before @ after))) \<and>
   fst (consumeStream rd chunks w) = concat (map (lineDelta rd) (streamLines chunks)) \<and>
   (body_text \<noteq> [] \<and> configured (aiConfigStatus (rState r)) \<longrightarrow>
      completion (ui (generateSummary rd r body_text opp HttpError w))
        = [0x751F, 0x6210, 0x603B, 0x7ED3, 0x65F6, 0x51FA, 0x73B0, 0x9519, 0x8BEF,
           0xFF0C, 0x8BF7, 0x91CD, 0x8BD5, 0x3002] \<and>
      completion (ui (generateSummary rd r body_text opp FetchFailed w))
        = [0x751F, 0x6210, 0x603B, 0x7ED3, 0x65F6, 0x51FA, 0x73B0, 0x9519, 0x8BEF,
           0xFF0C, 0x8BF7, 0x91CD, 0x8BD5, 0x3002] \<and>
      completion (ui (generateSummary rd r body_text opp (Streaming chunks StreamFailed) w))
        = [0x751F, 0x6210, 0x603B, 0x7ED3, 0x65F6, 0x51FA, 0x73B0, 0x9519, 0x8BEF,
           0xFF0C, 0x8BF7, 0x91CD, 0x8BD5, 0x3002] \<and>
      completion (ui (generateSummary rd r body_text opp FetchAborted w)) = [] \<and>
      completion (ui (generateSummary rd r body_text opp FetchFailed w))
        \<noteq> completion (ui (generateSummary rd r body_text opp FetchAborted w)) \<and>
      completion (ui (generateSummary rd r body_text opp HttpError w))
        \<noteq> completion (ui (generateSummary rd r body_text opp FetchAborted w)) \<and>
      completion (ui (generateSummary rd r body_text opp (Streaming chunks StreamAborted) w))
        = concat (map (lineDelta rd) (streamLines chunks)) \<and>
      completion (ui (generateSummary rd r body_text opp (Streaming chunks StreamDone) w))
        = concat (map (lineDelta rd) (streamLines chunks)))"
  by (simp add: processLine_malformed malformed_skipped consumeStream_fst generateSummary_completion
      retryMsg_def del: foldl_append append.simps)

section \<open>Configuration check\<close>

lemma missingItems_empty:
  "missingItems config = [] \<longleftrightarrow>
     trim (apiKey config) \<noteq> [] \<and> trim (baseUrl config) \<noteq> [] \<and> trim (model config) \<noteq> []"
  by (simp add: missingItems_def)

lemma missingItems_labels:
  "(JS ''API Key'' \<in> set (missingItems config) \<longleftrightarrow> trim (apiKey config) = []) \<and>
   (JS ''Base URL'' \<in> set (missingItems config) \<longleftrightarrow> trim (baseUrl config) = []) \<and>
   (JS ''Model'' \<in> set (missingItems config) \<longleftrightarrow> trim (model config) = [])"
  by (simp add: missingItems_def JS_def)

section \<open>The cache resolver\<close>

lemma similarity_empty: "similarity a [] = 0"
  by (simp add: similarity_def wordsOf_def)

lemma similarity_nonneg: "0 \<le> similarity a b"
  by (simp add: similarity_def Let_def)

lemma scoreOf_nonneg: "0 \<le> scoreOf st cur k"
  by (simp add: scoreOf_def similarity_nonneg split: option.splits)

lemma scanGroup_pure:
  "scanGroup cur ks (bk, bs, w) =
     (fst (foldl (scanStep (store w) cur) (bk, bs) ks),
      snd (foldl (scanStep (store w) cur) (bk, bs) ks),
      w\<lparr>storeOps := storeOps w @ map OpGet ks\<rparr>)"
proof (induction ks arbitrary: bk bs w)
  case Nil
  then show ?case by simp
next
  case (Cons k ks)
  show ?case
    by (simp add: store_getItem_def scanStep_def Cons Let_def split: option.splits)
qed

lemma scanStep_score:
  "0 \<le> snd best \<Longrightarrow> snd (scanStep st cur best k) = max (snd best) (scoreOf st cur k)"
  by (auto simp: scanStep_def scoreOf_def similarity_empty max_def split: option.splits)

lemma scan_score:
  "0 \<le> snd best \<Longrightarrow>
     snd (foldl (scanStep st cur) best ks) = Max (insert (snd best) (set (map (scoreOf st cur) ks)))"
proof (induction ks arbitrary: best)
  case Nil
  then show ?case by simp
next
  case (Cons k ks)
  have "0 \<le> snd (scanStep st cur best k)"
    using Cons.prems by (simp add: scanStep_score max_def)
  then have "snd (foldl (scanStep st cur) (scanStep st cur best k) ks) =
      Max (insert (max (snd best) (scoreOf st cur k)) (set (map (scoreOf st cur) ks)))"
    using Cons.IH [of "scanStep st cur best k"] Cons.prems by (simp add: scanStep_score)
  also have "\<dots> = Max (insert (snd best) (insert (scoreOf st cur k) (set (map (scoreOf st cur) ks))))"
    by (cases "set (map (scoreOf st cur) ks) = {}") (simp_all add: max.assoc)
  finally show ?case by simp
qed

lemma scanStep_bestOk:
  "bestOk st cur ks best \<Longrightarrow> k \<in> set ks \<Longrightarrow> bestOk st cur ks (scanStep st cur best k)"
  by (auto simp: bestOk_def scanStep_def split: option.splits)

lemma scan_bestOk:
  "bestOk st cur all best \<Longrightarrow> set ks \<subseteq> set all \<Longrightarrow> bestOk st cur all (foldl (scanStep st cur) best ks)"
  by (induction ks arbitrary: best) (simp_all add: scanStep_bestOk)

lemma fuzzyLookup_off:
  "\<not> (\<not> truthy (cacheKey res) \<and> truthy (groupPrefix res) \<and> truthy (sigSource res)) \<Longrightarrow>
     fuzzyLookup res w = (None, w)"
  by (simp only: fuzzyLookup_def if_False)

lemma fuzzyLookup_on:
  assumes "\<not> truthy (cacheKey res)" "groupPrefix res = Some g" "g \<noteq> []" "truthy (sigSource res)"
  shows "fuzzyLookup res w =
     (case fst (foldl (scanStep (store w) (content res)) (None, 0) (groupKeysOf (store w) g)) of
        None \<Rightarrow> (None, w\<lparr>storeOps := storeOps w @ OpKeys # map OpGet (groupKeysOf (store w) g)\<rparr>)
      | Some bk \<Rightarrow>
          if bk \<noteq> [] \<and> 4 / 5 \<le> snd (foldl (scanStep (store w) (content res)) (None, 0) (groupKeysOf (store w) g))
          then ((case map_of (store w) bk of None \<Rightarrow> None | Some cached \<Rightarrow> if cached \<noteq> [] then Some cached else None),
                w\<lparr>storeOps := storeOps w @ OpKeys # map OpGet (groupKeysOf (store w) g) @ [OpGet bk]\<rparr>)
          else (None, w\<lparr>storeOps := storeOps w @ OpKeys # map OpGet (groupKeysOf (store w) g)\<rparr>))"
  using assms
  by (simp add: fuzzyLookup_def store_keys_def scanGroup_pure groupKeysOf_def store_getItem_def
      split: option.splits)

lemma list_all_read_gets: "list_all isReadOp (map OpGet ks)"
  by (induction ks) simp_all

lemma fuzzyLookup_frame:
  "\<exists>ops. snd (fuzzyLookup res w) = w\<lparr>storeOps := storeOps w @ ops\<rparr> \<and> list_all isReadOp ops"
proof (cases "\<not> truthy (cacheKey res) \<and> truthy (groupPrefix res) \<and> truthy (sigSource res)")
  case False
  then have "snd (fuzzyLookup res w) = w\<lparr>storeOps := storeOps w @ []\<rparr> \<and> list_all isReadOp []"
    by (simp add: fuzzyLookup_off)
  then show ?thesis by blast
next
  case True
  then obtain g where g: "groupPrefix res = Some g" "g \<noteq> []"
    by (cases "groupPrefix res") auto
  define ks where "ks = groupKeysOf (store w) g"
  define best where "best = foldl (scanStep (store w) (content res)) (None, 0) ks"
  have eq: "fuzzyLookup res w =
     (case fst best of
        None \<Rightarrow> (None, w\<lparr>storeOps := storeOps w @ OpKeys # map OpGet ks\<rparr>)
      | Some bk \<Rightarrow>
          if bk \<noteq> [] \<and> 4 / 5 \<le> snd best
          then ((case map_of (store w) bk of None \<Rightarrow> None | Some cached \<Rightarrow> if cached \<noteq> [] then Some cached else None),
                w\<lparr>storeOps := storeOps w @ OpKeys # map OpGet ks @ [OpGet bk]\<rparr>)
          else (None, w\<lparr>storeOps := storeOps w @ OpKeys # map OpGet ks\<rparr>))"
    unfolding ks_def best_def using True g by (intro fuzzyLookup_on) simp_all
  have a: "list_all isReadOp (OpKeys # map OpGet ks)"
    by (simp add: list_all_read_gets)
  have b: "\<And>bk. list_all isReadOp (OpKeys # map OpGet ks @ [OpGet bk])"
    by (simp add: list_all_read_gets)
  show ?thesis
  proof (cases "fst best")
    case None
    then have "snd (fuzzyLookup res w) = w\<lparr>storeOps := storeOps w @ OpKeys # map OpGet ks\<rparr>"
      by (simp add: eq)
    with a show ?thesis by blast
  next
    case (Some bk)
    show ?thesis
    proof (cases "bk \<noteq> [] \<and> 4 / 5 \<le> snd best")
      case True
      then have "snd (fuzzyLookup res w) = w\<lparr>storeOps := storeOps w @ OpKeys # map OpGet ks @ [OpGet bk]\<rparr>"
        using Some by (simp add: eq)
      with b [of bk] show ?thesis by blast
    next
      case False
      then have "snd (fuzzyLookup res w) = w\<lparr>storeOps := storeOps w @ OpKeys # map OpGet ks\<rparr>"
        using Some by (simp add: eq)
      with a show ?thesis by blast
    qed
  qed
qed

lemma startsWith_nonempty: "startsWith k g \<Longrightarrow> g \<noteq> [] \<Longrightarrow> k \<noteq> []"
  by (auto simp: startsWith_def)

lemma fuzzyLookup_result:
  assumes "\<not> truthy (cacheKey res)" "groupPrefix res = Some g" "g \<noteq> []" "truthy (sigSource res)"
  shows "(fst (fuzzyLookup res w) \<noteq> None \<longleftrightarrow> 4 / 5 \<le> bestGroupScore (store w) g (content res))"
    and "fst (fuzzyLookup res w) = Some v \<Longrightarrow>
           \<exists>k \<in> set (groupKeysOf (store w) g). map_of (store w) k = Some v \<and> v \<noteq> [] \<and>
              scoreOf (store w) (content res) k = bestGroupScore (store w) g (content res)"
proof -
  define ks where "ks = groupKeysOf (store w) g"
  define best where "best = foldl (scanStep (store w) (content res)) (None, 0) ks"
  have eq: "fst (fuzzyLookup res w) =
     (case fst best of
        None \<Rightarrow> None
      | Some bk \<Rightarrow>
          if bk \<noteq> [] \<and> 4 / 5 \<le> snd best
          then (case map_of (store w) bk of None \<Rightarrow> None | Some cached \<Rightarrow> if cached \<noteq> [] then Some cached else None)
          else None)"
    unfolding ks_def best_def using fuzzyLookup_on [OF assms, of w] by (simp split: option.splits)
  have score: "snd best = bestGroupScore (store w) g (content res)"
    using scan_score [of "(None, 0)" "store w" "content res" ks]
    by (simp add: best_def bestGroupScore_def ks_def)
  have ok: "bestOk (store w) (content res) ks best"
    unfolding best_def by (rule scan_bestOk) (simp_all add: bestOk_def)
  show "(fst (fuzzyLookup res w) \<noteq> None \<longleftrightarrow> 4 / 5 \<le> bestGroupScore (store w) g (content res))"
  proof (cases "fst best")
    case None
    then have "snd best = 0" using ok by (simp add: bestOk_def)
    then show ?thesis using None score by (simp add: eq)
  next
    case (Some bk)
    then obtain c where c: "bk \<in> set ks" "map_of (store w) bk = Some c" "c \<noteq> []"
      using ok by (auto simp: bestOk_def)
    then have "bk \<noteq> []"
      using assms(3) by (auto simp: ks_def groupKeysOf_def dest: startsWith_nonempty)
    then show ?thesis using Some c score by (simp add: eq)
  qed
  show "\<exists>k \<in> set (groupKeysOf (store w) g). map_of (store w) k = Some v \<and> v \<noteq> [] \<and>
              scoreOf (store w) (content res) k = bestGroupScore (store w) g (content res)"
    if "fst (fuzzyLookup res w) = Some v"
  proof (cases "fst best")
    case None
    then show ?thesis using that by (simp add: eq)
  next
    case (Some bk)
    then obtain c where c: "bk \<in> set ks" "map_of (store w) bk = Some c" "c \<noteq> []"
      "similarity (take 400 (content res)) (take 400 c) = snd best"
      using ok by (auto simp: bestOk_def)
    then have "v = c" using that Some by (simp add: eq split: if_splits)
    then show ?thesis using c score by (auto simp: ks_def scoreOf_def)
  qed
qed

section \<open>The handlers\<close>

lemma extractPageContent_fst_indep:
  "fst (extractPageContent bk rend p) = fst (extractPageContent bk rend p')"
  by (simp add: extractPageContent_def split: option.splits)

lemma extractPageContent_pair:
  "extractPageContent bk rend p = (fst (extractPageContent bk rend p), snd (extractPageContent bk rend p))"
  by simp

lemma extractWindow_content_ne: "content (extractWindow bk doc b spineId ps sb eb) \<noteq> []"
  by (auto simp: extractWindow_def Let_def orElse_def noContentMsg_def)

lemma groupPrefixOf_ne: "groupPrefixOf bk spineId \<noteq> []"
  by (simp add: groupPrefixOf_def JS_def)

lemma extractWindow_prefix:
  "groupPrefix (extractWindow bk doc b spineId ps sb eb) = Some (groupPrefixOf bk spineId)"
  by (simp add: extractWindow_def Let_def)

lemma extractPageContent_prefix_content:
  assumes "groupPrefix (fst (extractPageContent bk rend p)) \<noteq> None"
  shows "content (fst (extractPageContent bk rend p)) \<noteq> []"
  using extractPageContent_cases [of bk rend p] assms
  by (auto simp: extractWindow_content_ne)

lemma extractPageContent_key_prefix:
  assumes "cacheKey (fst (extractPageContent bk rend p)) = Some k"
  shows "\<exists>g rest. groupPrefix (fst (extractPageContent bk rend p)) = Some g \<and> g \<noteq> [] \<and> k = g @ rest"
proof -
  from extractPageContent_cases [of bk rend p] assms
  obtain doc b spineId sb eb where
    e: "fst (extractPageContent bk rend p) = extractWindow bk doc b spineId (collectParagraphElements b) sb eb"
    by auto
  then have "cacheKey (extractWindow bk doc b spineId (collectParagraphElements b) sb eb) = Some k"
    using assms by simp
  from extractWindow_key(1,2) [OF this] show ?thesis
    using e groupPrefixOf_ne by auto
qed

lemma exactLookup_frame:
  "\<exists>ops. snd (exactLookup key w) = w\<lparr>storeOps := storeOps w @ ops\<rparr> \<and> list_all isReadOp ops"
proof (cases "\<exists>k. key = Some k \<and> k \<noteq> []")
  case False
  then have "snd (exactLookup key w) = w\<lparr>storeOps := storeOps w @ []\<rparr> \<and> list_all isReadOp []"
    by (auto simp: exactLookup_def split: option.splits)
  then show ?thesis by blast
next
  case True
  then obtain k where "key = Some k" "k \<noteq> []" by blast
  then have "snd (exactLookup key w) = w\<lparr>storeOps := storeOps w @ [OpGet k]\<rparr> \<and> list_all isReadOp [OpGet k]"
    by (simp add: exactLookup_def store_getItem_def split: option.splits)
  then show ?thesis by blast
qed

lemma exactLookup_None: "fst (exactLookup None w) = None" "snd (exactLookup None w) = w"
  by (simp_all add: exactLookup_def)

lemma exactLookup_fst:
  "fst (exactLookup (Some k) w) =
     (if k = [] then None
      else case map_of (store w) k of None \<Rightarrow> None | Some c \<Rightarrow> if c \<noteq> [] then Some c else None)"
  by (simp add: exactLookup_def store_getItem_def split: option.splits)

lemma fuzzyLookup_fst_store:
  assumes "store w' = store w"
  shows "fst (fuzzyLookup res w') = fst (fuzzyLookup res w)"
proof (cases "\<not> truthy (cacheKey res) \<and> truthy (groupPrefix res) \<and> truthy (sigSource res)")
  case False
  then show ?thesis by (simp add: fuzzyLookup_off)
next
  case True
  then obtain g where g: "groupPrefix res = Some g" "g \<noteq> []"
    by (cases "groupPrefix res") auto
  show ?thesis
    using True g assms fuzzyLookup_on [of res g w] fuzzyLookup_on [of res g w']
    by (simp split: option.splits)
qed

lemma fuzzyLookup_store: "store (snd (fuzzyLookup res w)) = store w"
  using fuzzyLookup_frame [of res w] by auto

lemma fuzzyLookup_requests: "requests (snd (fuzzyLookup res w)) = requests w"
  using fuzzyLookup_frame [of res w] by auto

lemma exactLookup_store: "store (snd (exactLookup key w)) = store w"
  using exactLookup_frame [of key w] by auto

lemma exactLookup_requests: "requests (snd (exactLookup key w)) = requests w"
  using exactLookup_frame [of key w] by auto

section \<open>The page-change handler\<close>

lemma afterExtract_fields:
  "store (afterExtract r w) = store w" "storeOps (afterExtract r w) = storeOps w"
  "requests (afterExtract r w) = requests w"
  by (simp_all add: afterExtract_def)

lemma onPageTimer_unfold:
  "onPageTimer rd r resp w =
     (case fst (exactLookup (cacheKey (extracted r w)) (afterExtract r w)) of
        Some cached \<Rightarrow> setCompletion cached (snd (exactLookup (cacheKey (extracted r w)) (afterExtract r w)))
      | None \<Rightarrow>
          (case fst (fuzzyLookup (extracted r w) (snd (exactLookup (cacheKey (extracted r w)) (afterExtract r w)))) of
             Some cached \<Rightarrow>
               setCompletion cached
                 (snd (fuzzyLookup (extracted r w) (snd (exactLookup (cacheKey (extracted r w)) (afterExtract r w)))))
           | None \<Rightarrow>
               (case cacheKey (extracted r w) of
                  None \<Rightarrow> generateSummary rd r (content (extracted r w)) None resp
                            (snd (fuzzyLookup (extracted r w) (snd (exactLookup (cacheKey (extracted r w)) (afterExtract r w)))))
                | Some k \<Rightarrow>
                    if k \<noteq> [] then
                      deferredWrite r k (generateSummary rd r (content (extracted r w)) None resp
                            (snd (fuzzyLookup (extracted r w) (snd (exactLookup (cacheKey (extracted r w)) (afterExtract r w))))))
                    else generateSummary rd r (content (extracted r w)) None resp
                            (snd (fuzzyLookup (extracted r w) (snd (exactLookup (cacheKey (extracted r w)) (afterExtract r w))))))))"
  unfolding onPageTimer_def extracted_def afterExtract_def Let_def case_prod_beta
  by (simp split: option.splits)

lemma extracted_key_ne: "cacheKey (extracted r w) = Some k \<Longrightarrow> k \<noteq> []"
  using extractPageContent_key_prefix [of "rBook r" "rRendition r" "ui w" k]
  by (auto simp: extracted_def)

lemma onPageTimer_nokey:
  assumes "cacheKey (extracted r w) = None"
  shows "onPageTimer rd r resp w =
     (case fst (fuzzyLookup (extracted r w) (afterExtract r w)) of
        Some cached \<Rightarrow> setCompletion cached (snd (fuzzyLookup (extracted r w) (afterExtract r w)))
      | None \<Rightarrow> generateSummary rd r (content (extracted r w)) None resp
                  (snd (fuzzyLookup (extracted r w) (afterExtract r w))))"
  by (simp add: onPageTimer_unfold assms exactLookup_None split: option.splits)

lemma onPageTimer_key_miss:
  assumes "cacheKey (extracted r w) = Some k"
    and "fst (exactLookup (Some k) (afterExtract r w)) = None"
  shows "onPageTimer rd r resp w =
     deferredWrite r k (generateSummary rd r (content (extracted r w)) None resp
        (snd (exactLookup (Some k) (afterExtract r w))))"
proof -
  have ne: "k \<noteq> []" using assms(1) by (rule extracted_key_ne)
  have "fuzzyLookup (extracted r w) (snd (exactLookup (Some k) (afterExtract r w)))
          = (None, snd (exactLookup (Some k) (afterExtract r w)))"
    by (rule fuzzyLookup_off) (simp add: assms(1) ne)
  then show ?thesis
    using assms ne by (simp add: onPageTimer_unfold)
qed

lemma setCompletion_fields:
  "store (setCompletion v w) = store w" "storeOps (setCompletion v w) = storeOps w"
  "requests (setCompletion v w) = requests w" "completion (ui (setCompletion v w)) = v"
  by (simp_all add: setCompletion_def)

lemma deferredWrite_store:
  "store (deferredWrite r k w) =
     (if completion (rState r) \<noteq> [] then alist_set k (completion (rState r)) (store w) else store w)"
  by (simp add: deferredWrite_def store_setItem_def)

lemma deferredWrite_ui: "ui (deferredWrite r k w) = ui w"
  by (simp add: deferredWrite_def store_setItem_def)

text \<open>
  After an exact miss the store holds, under the key, the value that \<open>completion\<close> had at
  the render that started the handler, whatever the stream delivered.
\<close>

lemma onPageTimer_write:
  assumes "cacheKey (extracted r w) = Some k"
    and "fst (exactLookup (Some k) (afterExtract r w)) = None"
  shows "store (onPageTimer rd r resp w) =
     (if completion (rState r) \<noteq> [] then alist_set k (completion (rState r)) (store w) else store w)"
  by (simp add: onPageTimer_key_miss [OF assms] deferredWrite_store generateSummary_store
      exactLookup_store afterExtract_fields)

lemma onPageTimer_nokey_store:
  assumes "cacheKey (extracted r w) = None"
  shows "store (onPageTimer rd r resp w) = store w"
  by (simp add: onPageTimer_nokey [OF assms] setCompletion_fields generateSummary_store
      fuzzyLookup_store afterExtract_fields split: option.splits)

lemma onPageTimer_nokey_ops:
  assumes "cacheKey (extracted r w) = None"
  shows "\<exists>ops. storeOps (onPageTimer rd r resp w) = storeOps w @ ops \<and> list_all isReadOp ops"
proof -
  obtain ops where o: "snd (fuzzyLookup (extracted r w) (afterExtract r w))
      = (afterExtract r w)\<lparr>storeOps := storeOps (afterExtract r w) @ ops\<rparr>" "list_all isReadOp ops"
    using fuzzyLookup_frame [of "extracted r w" "afterExtract r w"] by blast
  have "storeOps (onPageTimer rd r resp w) = storeOps w @ ops"
    by (simp add: onPageTimer_nokey [OF assms] setCompletion_fields generateSummary_store o(1)
        afterExtract_fields split: option.splits)
  with o(2) show ?thesis by blast
qed

lemma stopGeneration_fields:
  "store (stopGeneration w) = store w" "storeOps (stopGeneration w) = storeOps w"
  "requests (stopGeneration w) = requests w"
  by (simp_all add: stopGeneration_def setIsLoading_def)

lemma handleRefreshSummary_nokey:
  assumes "cacheKey (extracted r w) = None"
  shows "store (handleRefreshSummary rd r resp w) = store w"
    and "storeOps (handleRefreshSummary rd r resp w) = storeOps w"
proof -
  have "fst (extractPageContent (rBook r) (rRendition r) (ui (stopGeneration w))) = extracted r w"
    unfolding extracted_def by (rule extractPageContent_fst_indep)
  then have k: "cacheKey (fst (extractPageContent (rBook r) (rRendition r) (ui (stopGeneration w)))) = None"
    using assms by simp
  have e: "handleRefreshSummary rd r resp w =
      generateSummary rd r (content (fst (extractPageContent (rBook r) (rRendition r) (ui (stopGeneration w))))) None resp
        ((stopGeneration w)\<lparr>ui := (snd (extractPageContent (rBook r) (rRendition r) (ui (stopGeneration w))))
            \<lparr>pageContent := content (fst (extractPageContent (rBook r) (rRendition r) (ui (stopGeneration w))))\<rparr>\<rparr>)"
    unfolding handleRefreshSummary_def Let_def case_prod_beta using k by simp
  show "store (handleRefreshSummary rd r resp w) = store w"
    by (simp add: e generateSummary_store stopGeneration_fields)
  show "storeOps (handleRefreshSummary rd r resp w) = storeOps w"
    by (simp add: e generateSummary_store stopGeneration_fields)
qed

lemma onUpdateClick_store:
  "store (onUpdateClick rd r resp w) = store w \<and> storeOps (onUpdateClick rd r resp w) = storeOps w"
  unfolding onUpdateClick_def Let_def case_prod_beta by (simp add: generateSummary_store)

lemma deferredWrite_requests: "requests (deferredWrite r k w) = requests w"
  by (simp add: deferredWrite_def store_setItem_def)

lemma onPageTimer_refused:
  assumes "\<not> configured (aiConfigStatus (rState r))"
  shows "requests (onPageTimer rd r resp w) = requests w"
  using assms
  by (simp add: onPageTimer_unfold generateSummary_refused setCompletion_fields deferredWrite_requests
      fuzzyLookup_requests exactLookup_requests afterExtract_fields split: option.splits)

lemma handleRefreshSummary_refused:
  assumes "\<not> configured (aiConfigStatus (rState r))"
  shows "requests (handleRefreshSummary rd r resp w) = requests w"
  unfolding handleRefreshSummary_def Let_def case_prod_beta using assms
  by (simp add: generateSummary_refused stopGeneration_fields store_removeItem_def split: option.splits)

lemma onUpdateClick_refused:
  assumes "\<not> configured (aiConfigStatus (rState r))"
  shows "requests (onUpdateClick rd r resp w) = requests w"
  unfolding onUpdateClick_def Let_def case_prod_beta using assms
  by (simp add: generateSummary_refused)

text \<open>
  Claim C8, as amended.  When the credential, the base URL or the model identifier that
  \<open>aiStorage.getAll()\<close> returns is empty or blank (an item that was never stored counts
  only for the credential: the base URL and the model then take their defaults), and the
  panel's status is the one that \<open>checkAiConfig\<close> computed from it, then
  \<open>generateSummary\<close> returns at once and leaves the world as it is, no handler sends a
  request, and the panel shows the configuration card listing exactly the blank items.
\<close>

theorem C8_incomplete_configuration_refused:
  assumes "trim (apiKey (aiStorage_getAll ls)) = [] \<or> trim (baseUrl (aiStorage_getAll ls)) = [] \<or>
           trim (model (aiStorage_getAll ls)) = []"
    and "rState r = checkAiConfig ls p"
  shows "generateSummary rd r body_text opp resp w = w \<and>
         requests (generateSummary rd r body_text opp resp w) = requests w \<and>
         requests (onPageTimer rd r resp w) = requests w \<and>
         requests (handleRefreshSummary rd r resp w) = requests w \<and>
         requests (onUpdateClick rd r resp w) = requests w \<and>
         configCardShown (rState r) \<and>
         configCardItems (rState r) = joinWith (JS '', '') (missingItems (aiStorage_getAll ls)) \<and>
         missingItems (aiStorage_getAll ls) \<noteq> [] \<and>
         (JS ''API Key'' \<in> set (missingItems (aiStorage_getAll ls)) \<longleftrightarrow> trim (apiKey (aiStorage_getAll ls)) = []) \<and>
         (JS ''Base URL'' \<in> set (missingItems (aiStorage_getAll ls)) \<longleftrightarrow> trim (baseUrl (aiStorage_getAll ls)) = []) \<and>
         (JS ''Model'' \<in> set (missingItems (aiStorage_getAll ls)) \<longleftrightarrow> trim (model (aiStorage_getAll ls)) = [])"
proof -
  have m: "missingItems (aiStorage_getAll ls) \<noteq> []"
    using assms(1) missingItems_empty [of "aiStorage_getAll ls"] by blast
  then have nc: "\<not> configured (aiConfigStatus (rState r))"
    by (simp add: assms(2) checkAiConfig_def Let_def)
  have g: "generateSummary rd r body_text opp resp w = w"
    using nc by (simp add: generateSummary_refused)
  have c: "configCardShown (rState r)"
    using nc by (simp add: configCardShown_def)
  have i: "configCardItems (rState r) = joinWith (JS '', '') (missingItems (aiStorage_getAll ls))"
    by (simp add: configCardItems_def assms(2) checkAiConfig_def Let_def)
  show ?thesis
    using m g c i onPageTimer_refused [OF nc] handleRefreshSummary_refused [OF nc]
      onUpdateClick_refused [OF nc] missingItems_labels [of "aiStorage_getAll ls"]
    by simp
qed

text \<open>
  Claim C7.  The fuzzy path does nothing unless the exact key is unavailable and a group
  prefix and a signature source exist.  When it runs, it returns a cached value exactly
  when the maximum, over the stored keys sharing the group prefix, of the word-level
  Jaccard similarity between the first 400 characters of the current content and of the
  cached content is at least 0.8, and the value returned is stored under a key of the
  group that attains this maximum.  It changes nothing in the world but the log of store
  operations, to which it adds reads only.  In the page-change handler a fuzzy hit
  becomes the visible output without a request, and a fuzzy miss sends one request.
\<close>

theorem C7_fuzzy_lookup:
  "(\<not> (\<not> truthy (cacheKey res) \<and> truthy (groupPrefix res) \<and> truthy (sigSource res)) \<longrightarrow>
      fuzzyLookup res w = (None, w)) \<and>
   (\<not> truthy (cacheKey res) \<and> groupPrefix res = Some g \<and> g \<noteq> [] \<and> truthy (sigSource res) \<longrightarrow>
      (fst (fuzzyLookup res w) \<noteq> None \<longleftrightarrow> 4 / 5 \<le> bestGroupScore (store w) g (content res)) \<and>
      (\<forall>v. fst (fuzzyLookup res w) = Some v \<longrightarrow>
         (\<exists>k \<in> set (groupKeysOf (store w) g). map_of (store w) k = Some v \<and>
            scoreOf (store w) (content res) k = bestGroupScore (store w) g (content res)))) \<and>
   (\<exists>ops. snd (fuzzyLookup res w) = w\<lparr>storeOps := storeOps w @ ops\<rparr> \<and> list_all isReadOp ops) \<and>
   (configured (aiConfigStatus (rState r)) \<and> cacheKey (extracted r w) = None \<and>
    groupPrefix (extracted r w) \<noteq> None \<longrightarrow>
      (case fst (fuzzyLookup (extracted r w) w) of
         Some v \<Rightarrow> completion (ui (onPageTimer rd r resp w)) = v \<and>
                   requests (onPageTimer rd r resp w) = requests w
       | None \<Rightarrow> length (requests (onPageTimer rd r resp w)) = Suc (length (requests w))))"
proof (intro conjI impI)
  assume "\<not> (\<not> truthy (cacheKey res) \<and> truthy (groupPrefix res) \<and> truthy (sigSource res))"
  then show "fuzzyLookup res w = (None, w)" by (rule fuzzyLookup_off)
next
  assume a: "\<not> truthy (cacheKey res) \<and> groupPrefix res = Some g \<and> g \<noteq> [] \<and> truthy (sigSource res)"
  then show "fst (fuzzyLookup res w) \<noteq> None \<longleftrightarrow> 4 / 5 \<le> bestGroupScore (store w) g (content res)"
    using fuzzyLookup_result(1) [of res g w] by blast
  show "\<forall>v. fst (fuzzyLookup res w) = Some v \<longrightarrow>
         (\<exists>k \<in> set (groupKeysOf (store w) g). map_of (store w) k = Some v \<and>
            scoreOf (store w) (content res) k = bestGroupScore (store w) g (content res))"
    using a fuzzyLookup_result(2) [where res = res and g = g and w = w] by blast
next
  show "\<exists>ops. snd (fuzzyLookup res w) = w\<lparr>storeOps := storeOps w @ ops\<rparr> \<and> list_all isReadOp ops"
    by (rule fuzzyLookup_frame)
next
  assume h: "configured (aiConfigStatus (rState r)) \<and> cacheKey (extracted r w) = None \<and>
    groupPrefix (extracted r w) \<noteq> None"
  then have k: "cacheKey (extracted r w) = None" by simp
  have c: "content (extracted r w) \<noteq> []"
    using h extractPageContent_prefix_content [of "rBook r" "rRendition r" "ui w"]
    by (simp add: extracted_def)
  have f: "fst (fuzzyLookup (extracted r w) (afterExtract r w)) = fst (fuzzyLookup (extracted r w) w)"
    by (rule fuzzyLookup_fst_store) (simp add: afterExtract_fields)
  show "case fst (fuzzyLookup (extracted r w) w) of
         Some v \<Rightarrow> completion (ui (onPageTimer rd r resp w)) = v \<and>
                   requests (onPageTimer rd r resp w) = requests w
       | None \<Rightarrow> length (requests (onPageTimer rd r resp w)) = Suc (length (requests w))"
  proof (cases "fst (fuzzyLookup (extracted r w) w)")
    case None
    then show ?thesis
      using h c f
      by (simp add: onPageTimer_nokey [OF k] generateSummary_requests fuzzyLookup_requests
          afterExtract_fields)
  next
    case (Some v)
    then show ?thesis
      using f
      by (simp add: onPageTimer_nokey [OF k] setCompletion_fields fuzzyLookup_requests
          afterExtract_fields)
  qed
qed

text \<open>
  Claim C4, as amended.  On both degraded paths the cache key is null.  The group prefix
  and the signature source are null when no paragraph block qualifies; when the joined
  window is shorter than 50 characters both are kept, for the fuzzy lookup.  After an extraction without
  cache key no handler changes the store: the page-change handler only reads it, and the
  refresh and update handlers issue no store operation at all.
\<close>

theorem C4_degraded_extraction:
  "(collectParagraphElements b0 = [] \<longrightarrow>
      cacheKey (extractFromBody bk0 rn doc0 b0) = None \<and> groupPrefix (extractFromBody bk0 rn doc0 b0) = None \<and>
      sigSource (extractFromBody bk0 rn doc0 b0) = None) \<and>
   (length (windowContext (inBetweenOf doc ps sb eb)) < 50 \<longrightarrow>
      cacheKey (extractWindow bk doc b spineId ps sb eb) = None \<and>
      groupPrefix (extractWindow bk doc b spineId ps sb eb) = Some (groupPrefixOf bk spineId) \<and>
      sigSource (extractWindow bk doc b spineId ps sb eb) = Some (paraHashSource (inBetweenOf doc ps sb eb))) \<and>
   (cacheKey (extracted r w) = None \<longrightarrow>
      store (onPageTimer rd r resp w) = store w \<and>
      (\<exists>ops. storeOps (onPageTimer rd r resp w) = storeOps w @ ops \<and> list_all isReadOp ops) \<and>
      store (handleRefreshSummary rd r resp w) = store w \<and>
      storeOps (handleRefreshSummary rd r resp w) = storeOps w \<and>
      store (onUpdateClick rd r resp w) = store w \<and>
      storeOps (onUpdateClick rd r resp w) = storeOps w)"
proof (intro conjI impI)
  assume "collectParagraphElements b0 = []"
  then show "cacheKey (extractFromBody bk0 rn doc0 b0) = None"
    and "groupPrefix (extractFromBody bk0 rn doc0 b0) = None"
    and "sigSource (extractFromBody bk0 rn doc0 b0) = None"
    by (simp_all add: extractFromBody_def Let_def split: prod.splits)
next
  assume "length (windowContext (inBetweenOf doc ps sb eb)) < 50"
  then show "cacheKey (extractWindow bk doc b spineId ps sb eb) = None"
    and "groupPrefix (extractWindow bk doc b spineId ps sb eb) = Some (groupPrefixOf bk spineId)"
    and "sigSource (extractWindow bk doc b spineId ps sb eb) = Some (paraHashSource (inBetweenOf doc ps sb eb))"
    by (simp_all add: extractWindow_def Let_def)
next
  assume k: "cacheKey (extracted r w) = None"
  show "store (onPageTimer rd r resp w) = store w" using k by (rule onPageTimer_nokey_store)
  show "\<exists>ops. storeOps (onPageTimer rd r resp w) = storeOps w @ ops \<and> list_all isReadOp ops"
    using k by (rule onPageTimer_nokey_ops)
  show "store (handleRefreshSummary rd r resp w) = store w" using k by (rule handleRefreshSummary_nokey)
  show "storeOps (handleRefreshSummary rd r resp w) = storeOps w" using k by (rule handleRefreshSummary_nokey)
  show "store (onUpdateClick rd r resp w) = store w" by (simp add: onUpdateClick_store)
  show "storeOps (onUpdateClick rd r resp w) = storeOps w" by (simp add: onUpdateClick_store)
qed

lemma alist_set_key: "k \<in> set (map fst (alist_set k v st))"
  by (induction st) auto

lemma alist_set_lookup: "map_of (alist_set k v st) k = Some v"
  by (induction st) auto

text \<open>
  Claim C10.  Whenever extraction returns a cache key it returns a group prefix too, and
  the key begins with the prefix; hence, once a value has been written under the key, the
  key is among those that the group scan of this prefix enumerates.
\<close>

theorem C10_key_begins_with_group_prefix:
  assumes "cacheKey (fst (extractPageContent bk rend p)) = Some k"
  shows "\<exists>g. groupPrefix (fst (extractPageContent bk rend p)) = Some g \<and> g \<noteq> [] \<and>
             startsWith k g \<and> prefix g k \<and>
             k \<in> set (groupKeysOf (store (store_setItem k v w)) g)"
proof -
  obtain g rest where g: "groupPrefix (fst (extractPageContent bk rend p)) = Some g" "g \<noteq> []" "k = g @ rest"
    using extractPageContent_key_prefix [OF assms] by blast
  have "startsWith k g" using g(3) by (simp add: startsWith_append)
  moreover have "prefix g k" using g(3) by simp
  moreover have "k \<in> set (groupKeysOf (store (store_setItem k v w)) g)"
    using \<open>startsWith k g\<close> alist_set_key [of k v "store w"]
    by (simp add: groupKeysOf_def store_setItem_def)
  ultimately show ?thesis using g by blast
qed

section \<open>Concrete instances of the handlers\<close>

lemma ex_configured: "aiConfigStatus (checkAiConfig ex_ls p) = \<lparr>configured = True, missing = []\<rparr>"
  by (simp add: checkAiConfig_def aiStorage_getAll_def storage_getItem_def ex_ls_def missingItems_def
      Let_def trim_def JS_def isSpace_def)

lemma ex_unconfigured:
  "trim (apiKey (aiStorage_getAll ex_ls_empty)) = []"
  "missingItems (aiStorage_getAll ex_ls_empty) = [JS ''API Key'']"
  by (simp_all add: aiStorage_getAll_def storage_getItem_def ex_ls_empty_def missingItems_def
      trim_def JS_def isSpace_def)

lemma ex_lines:
  "streamLines ex_chunks = [JS ''data: {A}'', JS ''data: {bad'', [], JS ''data: {B}'', JS ''data: [DONE]'', []]"
  by (simp add: streamLines_def ex_chunks_def splitLines_def JS_def)

lemma ex_line_deltas:
  "lineDelta ex_reader (JS ''data: {A}'') = JS ''Hello ''"
  "lineDelta ex_reader (JS ''data: {bad'') = []"
  "lineDelta ex_reader [] = []"
  "lineDelta ex_reader (JS ''data: {B}'') = JS ''world''"
  "lineDelta ex_reader (JS ''data: [DONE]'') = []"
  by (simp_all add: lineDelta_def ex_reader_def trim_def startsWith_def JS_def isSpace_def)

lemma ex_deltas: "concat (map (lineDelta ex_reader) (streamLines ex_chunks)) = JS ''Hello world''"
  by (simp add: ex_lines ex_line_deltas) (simp add: JS_def)

lemma ex_malformed: "malformedLine ex_reader (JS ''data: {bad'')"
  by (simp add: malformedLine_def ex_reader_def trim_def startsWith_def JS_def isSpace_def)

lemma ex_extracted:
  "rBook r = None \<Longrightarrow> rRendition r = Some ex_rend \<Longrightarrow>
     extracted r w = \<lparr>content = ex_text, cacheKey = Some (JS ''ai-summary:unknown:0:0-0:24d1b55c''),
        groupPrefix = Some (JS ''ai-summary:unknown:0:''),
        sigSource = Some (ex_text @ JS ''|'' @ ex_text)\<rparr>"
  by (simp add: extracted_def ex_extract)

lemma ex_extracted_short:
  "extracted ex_render_short w = \<lparr>content = ex_short_text, cacheKey = None,
      groupPrefix = Some (JS ''ai-summary:unknown:0:''),
      sigSource = Some (ex_short_text @ JS ''|'' @ ex_short_text)\<rparr>"
  by (simp add: extracted_def ex_render_short_def ex_short_extract)

lemma ex_generated:
  assumes "rBook r = None" "rRendition r = Some ex_rend"
    "aiConfigStatus (rState r) = \<lparr>configured = True, missing = []\<rparr>" "store w = []"
  shows "completion (ui (onPageTimer ex_reader r (Streaming ex_chunks StreamDone) w)) = JS ''Hello world''"
    and "store (onPageTimer ex_reader r (Streaming ex_chunks StreamDone) w) =
           (if completion (rState r) \<noteq> []
            then [(JS ''ai-summary:unknown:0:0-0:24d1b55c'', completion (rState r))] else [])"
proof -
  have k: "cacheKey (extracted r w) = Some (JS ''ai-summary:unknown:0:0-0:24d1b55c'')"
    by (simp add: ex_extracted [OF assms(1,2)])
  have c: "content (extracted r w) = ex_text"
    by (simp add: ex_extracted [OF assms(1,2)])
  have m: "fst (exactLookup (Some (JS ''ai-summary:unknown:0:0-0:24d1b55c'')) (afterExtract r w)) = None"
    by (simp add: exactLookup_fst afterExtract_fields assms(4))
  show "completion (ui (onPageTimer ex_reader r (Streaming ex_chunks StreamDone) w)) = JS ''Hello world''"
    by (simp add: onPageTimer_key_miss [OF k m] deferredWrite_ui c generateSummary_completion
        ex_text_ne assms(3) ex_deltas)
  show "store (onPageTimer ex_reader r (Streaming ex_chunks StreamDone) w) =
           (if completion (rState r) \<noteq> []
            then [(JS ''ai-summary:unknown:0:0-0:24d1b55c'', completion (rState r))] else [])"
    by (simp add: onPageTimer_write [OF k m] assms(4))
qed

text \<open>
  Claim C1 fails on the code.  On the page with one paragraph the stream delivers
  \<open>Hello world\<close> and the generation completes.  When the handler was started by a render
  in which the panel still showed the previous summary \<open>OLD\<close>, the deferred write stores
  \<open>OLD\<close> under the key of the new page; when it was started by the first render, in which
  nothing was shown, nothing is written at all.
\<close>

theorem C1_deferred_write_stale:
  "completion (ui (onPageTimer ex_reader ex_render_next (Streaming ex_chunks StreamDone)
       (ex_world (rState ex_render_next) []))) = JS ''Hello world'' \<and>
   store (onPageTimer ex_reader ex_render_next (Streaming ex_chunks StreamDone)
       (ex_world (rState ex_render_next) [])) = [(JS ''ai-summary:unknown:0:0-0:24d1b55c'', JS ''OLD'')] \<and>
   completion (ui (onPageTimer ex_reader ex_render_first (Streaming ex_chunks StreamDone)
       (ex_world (rState ex_render_first) []))) = JS ''Hello world'' \<and>
   store (onPageTimer ex_reader ex_render_first (Streaming ex_chunks StreamDone)
       (ex_world (rState ex_render_first) [])) = []"
proof -
  have a: "rBook ex_render_next = None" "rRendition ex_render_next = Some ex_rend"
    "aiConfigStatus (rState ex_render_next) = \<lparr>configured = True, missing = []\<rparr>"
    "completion (rState ex_render_next) = JS ''OLD''"
    by (simp_all add: ex_render_next_def ex_configured)
  have b: "rBook ex_render_first = None" "rRendition ex_render_first = Some ex_rend"
    "aiConfigStatus (rState ex_render_first) = \<lparr>configured = True, missing = []\<rparr>"
    "completion (rState ex_render_first) = []"
    by (simp_all add: ex_render_first_def ex_configured) (simp add: checkAiConfig_def ex_panel_def Let_def)
  have s: "\<And>p. store (ex_world p []) = []" by (simp add: ex_world_def)
  have n: "JS ''OLD'' \<noteq> []" by (simp add: JS_def)
  show ?thesis
    using ex_generated [OF a(1,2,3) s] ex_generated [OF b(1,2,3) s] a(4) b(4) n by simp
qed

text \<open>
  Claim C4 as stated fails on the page whose only paragraph has 24 characters: the joined
  window is shorter than 50 characters, the cache key is null, and the group prefix is
  not.
\<close>

theorem C4_counterexample:
  "length (windowContext (inBetweenOf ex_doc_short (collectParagraphElements ex_body_short) ex_short ex_short)) < 50 \<and>
   cacheKey (fst (extractPageContent None (Some ex_rend_short) ex_panel)) = None \<and>
   groupPrefix (fst (extractPageContent None (Some ex_rend_short) ex_panel)) = Some (JS ''ai-summary:unknown:0:'')"
  by (simp add: ex_short_collect ex_short_inBetween ex_short_window ex_short_length ex_short_extract)

theorem C4_degraded_witness:
  "collectParagraphElements \<lparr>bodyText = [], blocks = []\<rparr> = [] \<and>
   length (windowContext (inBetweenOf ex_doc_short [ex_short] ex_short ex_short)) < 50 \<and>
   cacheKey (extracted ex_render_short (ex_world (rState ex_render_short) ex_store)) = None \<and>
   groupPrefix (extractFromBody None ex_rend_short ex_doc_short \<lparr>bodyText = [], blocks = []\<rparr>) = None \<and>
   cacheKey (extractWindow None ex_doc_short ex_body_short None [ex_short] ex_short ex_short) = None \<and>
   groupPrefix (extractWindow None ex_doc_short ex_body_short None [ex_short] ex_short ex_short)
     = Some (groupPrefixOf None None) \<and>
   store (onPageTimer ex_reader ex_render_short (Streaming ex_chunks StreamDone)
            (ex_world (rState ex_render_short) ex_store)) = ex_store"
proof -
  have a: "collectParagraphElements \<lparr>bodyText = [], blocks = []\<rparr> = []"
    by (simp add: collectParagraphElements_def)
  have b: "length (windowContext (inBetweenOf ex_doc_short [ex_short] ex_short ex_short)) < 50"
    by (simp add: ex_short_inBetween ex_short_window ex_short_length)
  have c: "cacheKey (extracted ex_render_short (ex_world (rState ex_render_short) ex_store)) = None"
    by (simp add: ex_extracted_short)
  have s: "store (ex_world (rState ex_render_short) ex_store) = ex_store"
    by (simp add: ex_world_def)
  show ?thesis
    using a b c s
      C4_degraded_extraction [where ?b0.0 = "\<lparr>bodyText = [], blocks = []\<rparr>" and ?bk0.0 = None
        and rn = ex_rend_short and ?doc0.0 = ex_doc_short and doc = ex_doc_short and ps = "[ex_short]"
        and sb = ex_short and eb = ex_short and bk = None and b = ex_body_short and spineId = None
        and r = ex_render_short and w = "ex_world (rState ex_render_short) ex_store"
        and rd = ex_reader and resp = "Streaming ex_chunks StreamDone"]
    by simp
qed

lemma ex_default_request:
  "buildRequest (aiStorage_getAll ex_ls) [] [] ex_text =
     \<lparr>reqUrl = JS ''https://api-inference.modelscope.cn/v1/chat/completions'',
      reqAuthorization = JS ''Bearer sk-test'', reqModel = JS ''Qwen/Qwen3-235B-A22B-Instruct-2507'',
      reqMessages = [SystemMsg, RulesMsg, BodyMsg ex_text]\<rparr>"
  by (simp add: buildRequest_def aiStorage_getAll_def storage_getItem_def ex_ls_def stripSlash_def JS_def)

lemma ex_stale_request:
  "buildRequest (aiStorage_getAll ex_ls_empty) [] [] ex_text =
     \<lparr>reqUrl = JS ''https://api-inference.modelscope.cn/v1/chat/completions'',
      reqAuthorization = JS ''Bearer '', reqModel = JS ''Qwen/Qwen3-235B-A22B-Instruct-2507'',
      reqMessages = [SystemMsg, RulesMsg, BodyMsg ex_text]\<rparr>"
  by (simp add: buildRequest_def aiStorage_getAll_def storage_getItem_def ex_ls_empty_def stripSlash_def
      JS_def)

text \<open>
  Claim C8 as stated fails twice.  With a stored credential and no stored base URL or
  model the status is configured and the request goes to the default endpoint with the
  default model.  And a status computed while the credential was stored still lets
  \<open>generateSummary\<close> through after the credential has gone: the request is sent with
  an empty credential.
\<close>

theorem C8_counterexample:
  "ex_ls (JS ''ai:baseUrl'') = Returned None \<and> ex_ls (JS ''ai:model'') = Returned None \<and>
   rState ex_render_first = checkAiConfig ex_ls ex_panel \<and>
   \<not> configCardShown (rState ex_render_first) \<and>
   requests (generateSummary ex_reader ex_render_first ex_text None (Streaming ex_chunks StreamDone)
       (ex_world (rState ex_render_first) [])) =
     [\<lparr>reqUrl = JS ''https://api-inference.modelscope.cn/v1/chat/completions'',
       reqAuthorization = JS ''Bearer sk-test'', reqModel = JS ''Qwen/Qwen3-235B-A22B-Instruct-2507'',
       reqMessages = [SystemMsg, RulesMsg, BodyMsg ex_text]\<rparr>] \<and>
   trim (apiKey (aiStorage_getAll ex_ls_empty)) = [] \<and>
   requests (generateSummary ex_reader ex_render_first ex_text None (Streaming ex_chunks StreamDone)
       ((ex_world (rState ex_render_first) [])\<lparr>localStore := ex_ls_empty\<rparr>)) =
     [\<lparr>reqUrl = JS ''https://api-inference.modelscope.cn/v1/chat/completions'',
       reqAuthorization = JS ''Bearer '', reqModel = JS ''Qwen/Qwen3-235B-A22B-Instruct-2507'',
       reqMessages = [SystemMsg, RulesMsg, BodyMsg ex_text]\<rparr>]"
proof -
  have c: "configured (aiConfigStatus (rState ex_render_first))"
    by (simp add: ex_render_first_def ex_configured)
  have s: "pagePromptSaved (rState ex_render_first) = []"
    by (simp add: ex_render_first_def checkAiConfig_def Let_def ex_panel_def)
  have u: "storage_getItem ex_ls (JS ''ai:userPrompt'') [] = []"
    "storage_getItem ex_ls_empty (JS ''ai:userPrompt'') [] = []"
    by (simp_all add: storage_getItem_def ex_ls_def ex_ls_empty_def JS_def)
  have t: "trim [] = []" by (simp add: trim_def)
  have a: "requests (generateSummary ex_reader ex_render_first ex_text None (Streaming ex_chunks StreamDone)
       (ex_world (rState ex_render_first) [])) = [buildRequest (aiStorage_getAll ex_ls) [] [] ex_text]"
    by (simp add: generateSummary_requests_sent [OF ex_text_ne c] requestSent_requests ex_world_def s u t)
  have b: "requests (generateSummary ex_reader ex_render_first ex_text None (Streaming ex_chunks StreamDone)
       ((ex_world (rState ex_render_first) [])\<lparr>localStore := ex_ls_empty\<rparr>))
         = [buildRequest (aiStorage_getAll ex_ls_empty) [] [] ex_text]"
    by (simp add: generateSummary_requests_sent [OF ex_text_ne c] requestSent_requests ex_world_def s u t)
  have l: "ex_ls (JS ''ai:baseUrl'') = Returned None" "ex_ls (JS ''ai:model'') = Returned None"
    by (simp_all add: ex_ls_def JS_def)
  show ?thesis
    using a b c l ex_unconfigured(1)
    by (simp add: ex_default_request ex_stale_request configCardShown_def ex_render_first_def)
qed

theorem C8_incomplete_configuration_witness:
  "trim (apiKey (aiStorage_getAll ex_ls_empty)) = [] \<and>
   rState ex_render_unconfigured = checkAiConfig ex_ls_empty ex_panel \<and>
   generateSummary ex_reader ex_render_unconfigured ex_text None (Streaming ex_chunks StreamDone)
       (ex_world (rState ex_render_unconfigured) []) = ex_world (rState ex_render_unconfigured) [] \<and>
   requests (onPageTimer ex_reader ex_render_unconfigured (Streaming ex_chunks StreamDone)
       (ex_world (rState ex_render_unconfigured) [])) = [] \<and>
   configCardShown (rState ex_render_unconfigured) \<and>
   configCardItems (rState ex_render_unconfigured) = JS ''API Key''"
proof -
  have a: "trim (apiKey (aiStorage_getAll ex_ls_empty)) = [] \<or> trim (baseUrl (aiStorage_getAll ex_ls_empty)) = [] \<or>
           trim (model (aiStorage_getAll ex_ls_empty)) = []"
    by (simp add: ex_unconfigured)
  have b: "rState ex_render_unconfigured = checkAiConfig ex_ls_empty ex_panel"
    by (simp add: ex_render_unconfigured_def)
  have r: "requests (ex_world (rState ex_render_unconfigured) []) = []"
    by (simp add: ex_world_def)
  show ?thesis
    using C8_incomplete_configuration_refused [OF a b, of ex_reader ex_text None
        "Streaming ex_chunks StreamDone" "ex_world (rState ex_render_unconfigured) []"]
      b r ex_unconfigured
    by simp
qed

theorem C9_stream_witness:
  "malformedLine ex_reader (JS ''data: {bad'') \<and>
   ex_text \<noteq> [] \<and> configured (aiConfigStatus (rState ex_render_first)) \<and>
   processLine ex_reader (JS ''Hello '', ex_world ex_panel []) (JS ''data: {bad'')
     = (JS ''Hello '', (ex_world ex_panel [])\<lparr>warnings := [JS ''data: {bad'']\<rparr>) \<and>
   fst (consumeStream ex_reader ex_chunks (ex_world ex_panel [])) = JS ''Hello world'' \<and>
   completion (ui (generateSummary ex_reader ex_render_first ex_text None HttpError (ex_world ex_panel [])))
     = [0x751F, 0x6210, 0x603B, 0x7ED3, 0x65F6, 0x51FA, 0x73B0, 0x9519, 0x8BEF,
           0xFF0C, 0x8BF7, 0x91CD, 0x8BD5, 0x3002] \<and>
   completion (ui (generateSummary ex_reader ex_render_first ex_text None FetchAborted (ex_world ex_panel [])))
     = [] \<and>
   completion (ui (generateSummary ex_reader ex_render_first ex_text None (Streaming ex_chunks StreamDone)
     (ex_world ex_panel []))) = JS ''Hello world''"
proof -
  have c: "configured (aiConfigStatus (rState ex_render_first))"
    by (simp add: ex_render_first_def ex_configured)
  have t: "trim (JS ''data: {bad'') = JS ''data: {bad''"
    by (simp add: trim_def JS_def isSpace_def)
  have w: "warnings (ex_world ex_panel []) = []"
    by (simp add: ex_world_def)
  show ?thesis
    using C9_stream_consumption [of ex_reader "JS ''data: {bad''" "JS ''Hello ''" "ex_world ex_panel []"
        "[]" "[]" ex_chunks ex_text ex_render_first None]
      ex_malformed ex_text_ne c t w ex_deltas
    by simp
qed

theorem C10_key_prefix_witness:
  "cacheKey (fst (extractPageContent None (Some ex_rend) ex_panel))
     = Some (JS ''ai-summary:unknown:0:0-0:24d1b55c'') \<and>
   (\<exists>g. groupPrefix (fst (extractPageContent None (Some ex_rend) ex_panel)) = Some g \<and> g \<noteq> [] \<and>
        startsWith (JS ''ai-summary:unknown:0:0-0:24d1b55c'') g \<and>
        prefix g (JS ''ai-summary:unknown:0:0-0:24d1b55c'') \<and>
        JS ''ai-summary:unknown:0:0-0:24d1b55c'' \<in> set (groupKeysOf
           (store (store_setItem (JS ''ai-summary:unknown:0:0-0:24d1b55c'') (JS ''Hello world'')
                     (ex_world ex_panel ex_store))) g))"
proof -
  have k: "cacheKey (fst (extractPageContent None (Some ex_rend) ex_panel))
     = Some (JS ''ai-summary:unknown:0:0-0:24d1b55c'')"
    by (simp add: ex_extract)
  show ?thesis
    using k C10_key_begins_with_group_prefix [OF k, of "JS ''Hello world''" "ex_world ex_panel ex_store"]
    by blast
qed

lemma ex_group_keys:
  "groupKeysOf ex_store (JS ''ai-summary:unknown:0:'') = [JS ''ai-summary:unknown:0:3-4:9f'']"
  "groupKeysOf ex_store_far (JS ''ai-summary:unknown:0:'') = [JS ''ai-summary:unknown:0:3-4:9f'']"
  by (simp_all add: groupKeysOf_def ex_store_def ex_store_far_def startsWith_def JS_def)

lemma ex_lookup:
  "map_of ex_store (JS ''ai-summary:unknown:0:3-4:9f'') = Some ex_near_text"
  "map_of ex_store_far (JS ''ai-summary:unknown:0:3-4:9f'') = Some ex_far_text"
  by (simp_all add: ex_store_def ex_store_far_def JS_def)

lemma ex_words:
  "wordsOf (take 400 ex_short_text) = [JS ''Short'', JS ''paragraph'', JS ''of'', JS ''text.'']"
  "wordsOf (take 400 ex_near_text) = [JS ''Short'', JS ''paragraph'', JS ''of'', JS ''text.'']"
  "wordsOf (take 400 ex_far_text) = [JS ''A'', JS ''quite'', JS ''different'', JS ''text.'']"
  by (simp_all add: wordsOf_def ex_short_text_def ex_near_text_def ex_far_text_def JS_def isSpace_def)

lemma ex_scores:
  "scoreOf ex_store ex_short_text (JS ''ai-summary:unknown:0:3-4:9f'') = 1"
  "scoreOf ex_store_far ex_short_text (JS ''ai-summary:unknown:0:3-4:9f'') = 1 / 7"
  by (simp_all add: scoreOf_def ex_lookup) (simp_all add: similarity_def ex_words Let_def JS_def)

lemma ex_best:
  "bestGroupScore ex_store (JS ''ai-summary:unknown:0:'') ex_short_text = 1"
  "bestGroupScore ex_store_far (JS ''ai-summary:unknown:0:'') ex_short_text = 1 / 7"
  by (simp_all add: bestGroupScore_def ex_group_keys ex_scores)

theorem C7_fuzzy_lookup_witness:
  "fuzzyLookup (extracted ex_render_first (ex_world ex_panel ex_store)) (ex_world ex_panel ex_store)
     = (None, ex_world ex_panel ex_store) \<and>
   4 / 5 \<le> bestGroupScore ex_store (JS ''ai-summary:unknown:0:'') ex_short_text \<and>
   fst (fuzzyLookup (extracted ex_render_short (ex_world (rState ex_render_short) ex_store))
          (ex_world (rState ex_render_short) ex_store)) = Some ex_near_text \<and>
   completion (ui (onPageTimer ex_reader ex_render_short (Streaming ex_chunks StreamDone)
          (ex_world (rState ex_render_short) ex_store))) = ex_near_text \<and>
   requests (onPageTimer ex_reader ex_render_short (Streaming ex_chunks StreamDone)
          (ex_world (rState ex_render_short) ex_store)) = [] \<and>
   \<not> 4 / 5 \<le> bestGroupScore ex_store_far (JS ''ai-summary:unknown:0:'') ex_short_text \<and>
   fst (fuzzyLookup (extracted ex_render_short (ex_world (rState ex_render_short) ex_store_far))
          (ex_world (rState ex_render_short) ex_store_far)) = None \<and>
   length (requests (onPageTimer ex_reader ex_render_short (Streaming ex_chunks StreamDone)
          (ex_world (rState ex_render_short) ex_store_far))) = 1"
proof -
  define g where "g = JS ''ai-summary:unknown:0:''"
  define wk where "wk = ex_world ex_panel ex_store"
  define wn where "wn = ex_world (rState ex_render_short) ex_store"
  define wf where "wf = ex_world (rState ex_render_short) ex_store_far"
  have f: "rBook ex_render_first = None" "rRendition ex_render_first = Some ex_rend"
    by (simp_all add: ex_render_first_def)
  have off: "\<not> (\<not> truthy (cacheKey (extracted ex_render_first wk)) \<and>
      truthy (groupPrefix (extracted ex_render_first wk)) \<and> truthy (sigSource (extracted ex_render_first wk)))"
    by (simp add: ex_extracted [OF f] JS_def)
  have gne: "g \<noteq> []" by (simp add: g_def JS_def)
  have sne: "ex_short_text @ JS ''|'' @ ex_short_text \<noteq> []" by (simp add: ex_short_ne)
  have on: "\<And>w. \<not> truthy (cacheKey (extracted ex_render_short w)) \<and>
      groupPrefix (extracted ex_render_short w) = Some g \<and> g \<noteq> [] \<and>
      truthy (sigSource (extracted ex_render_short w))"
    using gne sne by (simp add: ex_extracted_short g_def)
  have cfg: "configured (aiConfigStatus (rState ex_render_short))"
    by (simp add: ex_render_short_def ex_configured)
  have h: "\<And>w. configured (aiConfigStatus (rState ex_render_short)) \<and>
      cacheKey (extracted ex_render_short w) = None \<and> groupPrefix (extracted ex_render_short w) \<noteq> None"
    by (simp add: ex_extracted_short cfg)
  have c: "\<And>w. content (extracted ex_render_short w) = ex_short_text"
    by (simp add: ex_extracted_short)
  have st: "store wn = ex_store" "store wf = ex_store_far" "requests wn = []" "requests wf = []"
    by (simp_all add: wn_def wf_def ex_world_def)
  have bn: "4 / 5 \<le> bestGroupScore ex_store g ex_short_text"
    by (simp add: g_def ex_best)
  have bf: "\<not> 4 / 5 \<le> bestGroupScore ex_store_far g ex_short_text"
    by (simp add: g_def ex_best)
  note k = C7_fuzzy_lookup [where res = "extracted ex_render_first wk" and w = wk and r = ex_render_first]
  note n = C7_fuzzy_lookup [where res = "extracted ex_render_short wn" and w = wn and g = g
      and r = ex_render_short and rd = ex_reader and resp = "Streaming ex_chunks StreamDone"]
  note m = C7_fuzzy_lookup [where res = "extracted ex_render_short wf" and w = wf and g = g
      and r = ex_render_short and rd = ex_reader and resp = "Streaming ex_chunks StreamDone"]
  have 1: "fuzzyLookup (extracted ex_render_first wk) wk = (None, wk)"
    using k off by blast
  have "fst (fuzzyLookup (extracted ex_render_short wn) wn) \<noteq> None"
    using n on [of wn] bn by (simp add: c st)
  then obtain v where v: "fst (fuzzyLookup (extracted ex_render_short wn) wn) = Some v"
    by auto
  then have "\<exists>k \<in> set (groupKeysOf (store wn) g). map_of (store wn) k = Some v"
    using n on [of wn] by blast
  then have "v = ex_near_text"
    by (simp add: st g_def ex_group_keys ex_lookup)
  with v have 2: "fst (fuzzyLookup (extracted ex_render_short wn) wn) = Some ex_near_text"
    by simp
  have 3: "completion (ui (onPageTimer ex_reader ex_render_short (Streaming ex_chunks StreamDone) wn)) = ex_near_text
      \<and> requests (onPageTimer ex_reader ex_render_short (Streaming ex_chunks StreamDone) wn) = []"
    using n h [of wn] 2 by (simp add: st)
  have 4: "fst (fuzzyLookup (extracted ex_render_short wf) wf) = None"
    using m on [of wf] bf by (simp add: c st)
  have 5: "length (requests (onPageTimer ex_reader ex_render_short (Streaming ex_chunks StreamDone) wf)) = 1"
    using m h [of wf] 4 by (simp add: st)
  show ?thesis
    using 1 2 3 4 5 bn bf by (simp add: g_def wk_def wn_def wf_def)
qed

end
